theory Spec2Isabelle
  imports Main "HOL-Library.AList" "HOL-Library.Sublist"
begin

section \<open>The media index of \<open>src/operations/media.js\<close>\<close>

text \<open>
  The module keeps a process-wide cache (\<open>mediaCache\<close>) of the structures built from a
  site's remote \<open>media.json\<close>, and answers listing, statistics and usage queries from it.
  JavaScript strings are modelled as \<^typ>\<open>string\<close>; a property that may be absent
  (\<open>undefined\<close> or \<open>null\<close>) is an \<^typ>\<open>'a option\<close>. The known properties of a raw
  record hold strings when they are present, as the remote sheet delivers them.
\<close>

subsection \<open>JavaScript primitives used by the module\<close>

text \<open>Truthiness of an optional string: \<open>undefined\<close>, \<open>null\<close> and \<open>''\<close> are falsy.\<close>

definition truthy :: "string option \<Rightarrow> bool" where
  "truthy v = (case v of None \<Rightarrow> False | Some s \<Rightarrow> s \<noteq> [])"

text \<open>
  \<open>String.prototype.toLowerCase\<close>, modelled on the ASCII letters: \<open>A\<close>..\<open>Z\<close> are mapped
  to \<open>a\<close>..\<open>z\<close> and every other character is left as it is. JavaScript also lower-cases
  the cased letters outside ASCII; the proofs below use no fact about which characters
  change, only concrete evaluations on ASCII text do.
\<close>

definition toLowerCase_char :: "char \<Rightarrow> char" where
  "toLowerCase_char c =
     (let n = (of_char c :: nat) in if 65 \<le> n \<and> n \<le> 90 then char_of (n + 32) else c)"

definition toLowerCase :: "string \<Rightarrow> string" where
  "toLowerCase s = map toLowerCase_char s"

text \<open>\<open>s.split('?')[0]\<close>: the part of \<open>s\<close> before its first question mark.\<close>

definition split_first :: "string \<Rightarrow> string" where
  "split_first s = takeWhile (\<lambda>c. c \<noteq> CHR ''?'') s"

text \<open>\<open>key.includes(part)\<close>: \<open>part\<close> occurs in \<open>key\<close> as a contiguous substring.\<close>

definition str_includes :: "string \<Rightarrow> string \<Rightarrow> bool" where
  "str_includes key part = sublist part key"

text \<open>\<open>path.replace(/^\<bslash>//, '')\<close>: one leading slash is removed.\<close>

definition strip_leading_slash :: "string \<Rightarrow> string" where
  "strip_leading_slash p = (case p of [] \<Rightarrow> [] | c # cs \<Rightarrow> if c = CHR ''/'' then cs else p)"

subsection \<open>Key normalizer\<close>

definition getGroupingKey :: "string option \<Rightarrow> string" where
  "getGroupingKey u =
     (case u of
        None \<Rightarrow> []
      | Some s \<Rightarrow> if s = [] then [] else toLowerCase (split_first s))"

subsection \<open>Data model\<close>

text \<open>
  The usage detail kept per reference: the six properties that
  \<open>buildMediaStructures\<close> copies into the usage index.
\<close>

record usage_detail =
  doc :: "string option"
  alt :: "string option"
  type :: "string option"
  firstUsedAt :: "int option"
  lastUsedAt :: "int option"
  hash :: "string option"

text \<open>
  A raw record of \<open>media.json\<close>: the usage properties, the location identifier
  \<open>url\<close>, and whatever else the row carries (\<open>extras\<close>, kept as they come).
\<close>

record raw_record = usage_detail +
  url :: "string option"
  extras :: "(string \<times> string) list"

text \<open>
  A catalogue entry is the object \<open>{ ...item, usageCount }\<close>: every property of the
  raw record, and \<open>usageCount\<close>, which overrides a property of that name in the row.
\<close>

record catalogue_entry = raw_record +
  usageCount :: nat

text \<open>
  A JavaScript \<open>Map\<close> with string keys: an association list in insertion order.
  \<open>m.has(k)\<close> is \<open>map_of m k \<noteq> None\<close>, \<open>m.get(k)\<close> is \<open>map_of m k\<close>, and
  \<open>m.set(k, v)\<close> is \<open>AList.update k v m\<close>, which replaces the value of a key in place
  and appends a new key at the end.
\<close>

type_synonym 'v js_map = "(string \<times> 'v) list"

record structures =
  uniqueItems :: "catalogue_entry list"
  usageIndex :: "usage_detail list js_map"
  rawData :: "raw_record list"

record cache_entry = structures +
  fetchedAt :: int

subsection \<open>Index builder\<close>

text \<open>The object literal \<open>{ ...item, usageCount: 0 }\<close>.\<close>

definition seed_entry :: "raw_record \<Rightarrow> catalogue_entry" where
  "seed_entry item =
     \<lparr>doc = doc item, alt = alt item, type = type item,
      firstUsedAt = firstUsedAt item, lastUsedAt = lastUsedAt item, hash = hash item,
      url = url item, extras = extras item, usageCount = 0\<rparr>"

text \<open>The object literal pushed onto the usage index.\<close>

definition usage_of :: "raw_record \<Rightarrow> usage_detail" where
  "usage_of item =
     \<lparr>doc = doc item, alt = alt item, type = type item,
      firstUsedAt = firstUsedAt item, lastUsedAt = lastUsedAt item, hash = hash item\<rparr>"

text \<open>
  The body of the \<open>forEach\<close> callback, on the pair of maps \<open>(uniqueItemsMap, usageIndex)\<close>.
  The two \<open>get\<close> calls follow a \<open>set\<close> of the same key, so they always find it; their
  \<open>None\<close> branches are never taken (\<open>add_record_get_defined\<close>).
\<close>

definition add_record ::
  "catalogue_entry js_map \<times> usage_detail list js_map \<Rightarrow> raw_record
   \<Rightarrow> catalogue_entry js_map \<times> usage_detail list js_map" where
  "add_record st item =
     (case st of (uniqueItemsMap, usageIndexMap) \<Rightarrow>
        if \<not> truthy (url item) then (uniqueItemsMap, usageIndexMap)
        else
          let groupingKey = getGroupingKey (url item);
              um1 = (if map_of uniqueItemsMap groupingKey = None
                     then AList.update groupingKey (seed_entry item) uniqueItemsMap
                     else uniqueItemsMap);
              um2 = (case map_of um1 groupingKey of
                       None \<Rightarrow> um1
                     | Some e \<Rightarrow> AList.update groupingKey (e\<lparr>usageCount := usageCount e + 1\<rparr>) um1);
              ui1 = (if map_of usageIndexMap groupingKey = None
                     then AList.update groupingKey [] usageIndexMap
                     else usageIndexMap);
              ui2 = (case map_of ui1 groupingKey of
                       None \<Rightarrow> ui1
                     | Some usages \<Rightarrow> AList.update groupingKey (usages @ [usage_of item]) ui1)
          in (um2, ui2))"

text \<open>The maps after the \<open>forEach\<close> over a sequence of raw records.\<close>

definition build_maps ::
  "raw_record list \<Rightarrow> catalogue_entry js_map \<times> usage_detail list js_map" where
  "build_maps records = foldl add_record ([], []) records"

definition buildMediaStructures :: "raw_record list \<Rightarrow> structures" where
  "buildMediaStructures records =
     (case build_maps records of (uniqueItemsMap, usageIndexMap) \<Rightarrow>
        \<lparr>uniqueItems = map snd uniqueItemsMap,
         usageIndex = usageIndexMap,
         rawData = records\<rparr>)"

text \<open>The raw records that reach the canonical key \<open>k\<close>, in document order.\<close>

definition sharing :: "string \<Rightarrow> raw_record list \<Rightarrow> raw_record list" where
  "sharing k records =
     filter (\<lambda>r. truthy (url r) \<and> getGroupingKey (url r) = k) records"

subsection \<open>Boundary: the remote document, the clock and the error objects\<close>

text \<open>
  An \<open>Error\<close> object. \<open>error_toString\<close> is \<open>Error.prototype.toString\<close>.
\<close>

record js_error =
  error_name :: string
  message :: string

definition error_toString :: "js_error \<Rightarrow> string" where
  "error_toString e =
     (if error_name e = [] then message e
      else if message e = [] then error_name e
      else error_name e @ '': '' @ message e)"

text \<open>
  What \<open>daAdminRequest\<close> resolves to, by the way \<open>data.data || data || []\<close> and the
  following \<open>forEach\<close> treat it:
  \<^item> \<open>Sheet rows\<close>: an object whose \<open>data\<close> property is the array \<open>rows\<close>;
  \<^item> \<open>Rows rows\<close>: the array \<open>rows\<close> itself;
  \<^item> \<open>Blank\<close>: a falsy primitive (\<open>''\<close>, \<open>0\<close>, \<open>false\<close>), replaced by \<open>[]\<close>;
  \<^item> \<open>Malformed e\<close>: any other value; reading \<open>data\<close> of \<open>null\<close> or calling \<open>forEach\<close>
    on a non-array raises the \<open>TypeError\<close> \<open>e\<close> inside the \<open>try\<close> block.
\<close>

datatype response = Sheet "raw_record list" | Rows "raw_record list" | Blank | Malformed js_error

definition mediaData_of :: "response \<Rightarrow> js_error + raw_record list" where
  "mediaData_of data' =
     (case data' of
        Sheet rows \<Rightarrow> Inr rows
      | Rows rows \<Rightarrow> Inr rows
      | Blank \<Rightarrow> Inr []
      | Malformed e \<Rightarrow> Inl e)"

text \<open>
  The collaborators imported from \<open>../common/utils.js\<close> and the clock, as parameters of
  each call: \<open>formatURL\<close>, \<open>daAdminRequest\<close> (\<open>Inl\<close> when the promise rejects) and the
  value of \<open>Date.now()\<close>.
\<close>

record env =
  formatURL :: "string \<Rightarrow> string \<Rightarrow> string \<Rightarrow> string \<Rightarrow> string \<Rightarrow> string"
  daAdminRequest :: "string \<Rightarrow> js_error + response"
  now :: int

definition MEDIA_INDEX_PATH :: string where
  "MEDIA_INDEX_PATH = ''/.da/mediaindex/media''"

definition buildMediaPath :: "string option \<Rightarrow> string" where
  "buildMediaPath path =
     (case path of
        None \<Rightarrow> MEDIA_INDEX_PATH
      | Some p \<Rightarrow> if p = [] then MEDIA_INDEX_PATH
                  else ''/'' @ strip_leading_slash p @ MEDIA_INDEX_PATH)"

definition buildMediaUrl :: "env \<Rightarrow> string \<Rightarrow> string \<Rightarrow> string option \<Rightarrow> string" where
  "buildMediaUrl ev org repo path = formatURL ev ''source'' org repo (buildMediaPath path) ''json''"

subsection \<open>Results of the operations\<close>

record debug_info =
  debug_org :: string
  debug_repo :: string
  debug_path :: "string option"
  debug_url :: string
  debug_error :: string

record error_payload =
  error :: string
  initUrl :: string
  debug :: debug_info

text \<open>
  The listing \<open>{ data, total, fetchedAt, cached }\<close>. A property whose name is already
  a field of another record carries a prime: \<open>fetchedAt'\<close>, \<open>usageCount'\<close>, \<open>uniqueItems'\<close>.
\<close>

record index_result =
  data :: "catalogue_entry list"
  total :: nat
  fetchedAt' :: int
  cached :: bool

record usage_result =
  mediaItem :: "catalogue_entry option"
  usageCount' :: nat
  documents :: "string list"
  allUsages :: "usage_detail list"

record alt_status =
  filled :: nat
  decorative :: nat
  notFilled :: nat

text \<open>
  A value of the \<open>typeCount\<close> object: a number, or a string when \<open>+ 1\<close> was applied to
  something that is not a number.
\<close>

datatype js_count = Num nat | Str string

record stats_result =
  uniqueItems' :: nat
  totalReferences :: nat
  byType :: "js_count js_map"
  unused :: nat
  altText :: alt_status

datatype result =
    Index index_result
  | Failure error_payload
  | NotLoaded string
  | Usage usage_result
  | Stats stats_result

definition buildErrorResponse ::
  "env \<Rightarrow> string \<Rightarrow> string \<Rightarrow> string option \<Rightarrow> js_error \<Rightarrow> error_payload" where
  "buildErrorResponse ev org repo path err =
     (let displayPath = (case path of
                           None \<Rightarrow> []
                         | Some p \<Rightarrow> if p = [] then [] else ''/'' @ strip_leading_slash p)
      in \<lparr>error = ''Media index not found'',
          initUrl = ''https://main--da-live--adobe.aem.live/apps/media-library?nx=media#''
                      @ org @ ''/'' @ repo @ displayPath,
          debug = \<lparr>debug_org = org, debug_repo = repo, debug_path = path,
                    debug_url = buildMediaUrl ev org repo path,
                    debug_error = (if message err \<noteq> [] then message err
                                   else error_toString err)\<rparr>\<rparr>)"

subsection \<open>Site cache and \<open>getMediaIndex\<close>\<close>

type_synonym media_cache = "string \<rightharpoonup> cache_entry"

definition cacheKey :: "string \<Rightarrow> string \<Rightarrow> string option \<Rightarrow> string" where
  "cacheKey org repo path =
     org @ ''/'' @ repo @ ''/'' @ (case path of None \<Rightarrow> [] | Some p \<Rightarrow> p)"

text \<open>
  Every operation takes the cache and returns it with its result. A rejected request and
  a \<open>TypeError\<close> on a malformed document are both caught by the \<open>try\<close> block.
\<close>

definition getMediaIndex ::
  "env \<Rightarrow> media_cache \<Rightarrow> string \<Rightarrow> string \<Rightarrow> string option \<Rightarrow> result \<times> media_cache" where
  "getMediaIndex ev mediaCache org repo path =
     (case mediaCache (cacheKey org repo path) of
        Some hit \<Rightarrow>
          (Index \<lparr>data = uniqueItems hit, total = length (uniqueItems hit),
                  fetchedAt' = fetchedAt hit, cached = True\<rparr>,
           mediaCache)
      | None \<Rightarrow>
          (case daAdminRequest ev (buildMediaUrl ev org repo path) of
             Inl err \<Rightarrow> (Failure (buildErrorResponse ev org repo path err), mediaCache)
           | Inr data' \<Rightarrow>
               (case mediaData_of data' of
                  Inl err \<Rightarrow> (Failure (buildErrorResponse ev org repo path err), mediaCache)
                | Inr mediaData \<Rightarrow>
                    (let structures = buildMediaStructures mediaData
                     in (Index \<lparr>data = uniqueItems structures,
                                 total = length (uniqueItems structures),
                                 fetchedAt' = now ev, cached = False\<rparr>,
                         mediaCache(cacheKey org repo path \<mapsto>
                           \<lparr>uniqueItems = uniqueItems structures,
                            usageIndex = usageIndex structures,
                            rawData = rawData structures,
                            fetchedAt = now ev\<rparr>))))))"

definition refreshMediaCache ::
  "env \<Rightarrow> media_cache \<Rightarrow> string \<Rightarrow> string \<Rightarrow> string option \<Rightarrow> result \<times> media_cache" where
  "refreshMediaCache ev mediaCache org repo path =
     getMediaIndex ev (mediaCache(cacheKey org repo path := None)) org repo path"

subsection \<open>Statistics\<close>

text \<open>
  \<open>typeCount\<close> starts as the object literal \<open>{}\<close>, so a read of a property that the object
  does not own falls through to \<open>Object.prototype\<close>. \<open>inherited_text key\<close> is the string
  that \<open>+\<close> makes of the inherited member \<open>key\<close> (a built-in function, or
  \<open>Object.prototype\<close> itself for \<open>__proto__\<close>), and \<open>None\<close> when nothing is inherited
  under that name.
\<close>

definition object_prototype_methods :: "string list" where
  "object_prototype_methods =
     [''__defineGetter__'', ''__defineSetter__'', ''hasOwnProperty'', ''__lookupGetter__'',
      ''__lookupSetter__'', ''isPrototypeOf'', ''propertyIsEnumerable'', ''toString'',
      ''valueOf'', ''toLocaleString'']"

definition inherited_text :: "string \<Rightarrow> string option" where
  "inherited_text key =
     (if key = ''__proto__'' then Some ''[object Object]''
      else if key = ''constructor'' then Some ''function Object() { [native code] }''
      else if key \<in> set object_prototype_methods
           then Some (''function '' @ key @ ''() { [native code] }'')
      else None)"

text \<open>\<open>typeCount[type] || 0\<close>.\<close>

definition read_or_zero :: "js_count js_map \<Rightarrow> string \<Rightarrow> js_count" where
  "read_or_zero typeCount key =
     (case map_of typeCount key of
        Some (Num n) \<Rightarrow> Num n
      | Some (Str s) \<Rightarrow> if s = [] then Num 0 else Str s
      | None \<Rightarrow> (case inherited_text key of Some s \<Rightarrow> Str s | None \<Rightarrow> Num 0))"

text \<open>\<open>v + 1\<close>: addition on a number, concatenation on a string.\<close>

definition plus_one :: "js_count \<Rightarrow> js_count" where
  "plus_one v = (case v of Num n \<Rightarrow> Num (n + 1) | Str s \<Rightarrow> Str (s @ ''1''))"

text \<open>
  \<open>typeCount[type] = v\<close>. Assigning a string to \<open>__proto__\<close> runs the inherited setter,
  which ignores it; every other assignment creates or replaces an own property.
\<close>

definition assign_count :: "js_count js_map \<Rightarrow> string \<Rightarrow> js_count \<Rightarrow> js_count js_map" where
  "assign_count typeCount key v =
     (if key = ''__proto__'' then typeCount else AList.update key v typeCount)"

record stats_state =
  typeCount :: "js_count js_map"
  unusedCount :: nat
  altStatus :: alt_status

text \<open>\<open>item.type || 'unknown'\<close>.\<close>

definition type_label :: "raw_record \<Rightarrow> string" where
  "type_label item =
     (case type item of
        None \<Rightarrow> ''unknown''
      | Some t \<Rightarrow> if t = [] then ''unknown'' else t)"

definition count_record :: "stats_state \<Rightarrow> raw_record \<Rightarrow> stats_state" where
  "count_record st item =
     (let type' = type_label item;
          typeCount1 =
            assign_count (typeCount st) type' (plus_one (read_or_zero (typeCount st) type'));
          unusedCount1 =
            (if \<not> truthy (doc item) \<or> doc item = Some [] then unusedCount st + 1
             else unusedCount st);
          altStatus1 =
            (if alt item = Some ''null''
             then (altStatus st)\<lparr>notFilled := notFilled (altStatus st) + 1\<rparr>
             else if alt item = Some [] \<or> \<not> truthy (alt item)
             then (altStatus st)\<lparr>decorative := decorative (altStatus st) + 1\<rparr>
             else (altStatus st)\<lparr>filled := filled (altStatus st) + 1\<rparr>)
      in \<lparr>typeCount = typeCount1, unusedCount = unusedCount1, altStatus = altStatus1\<rparr>)"

definition count_all :: "raw_record list \<Rightarrow> stats_state" where
  "count_all records =
     foldl count_record
       \<lparr>typeCount = [], unusedCount = 0,
        altStatus = \<lparr>filled = 0, decorative = 0, notFilled = 0\<rparr>\<rparr>
       records"

text \<open>
  When the cache has no entry the source counts over \<open>index.data\<close>, the catalogue
  entries; \<open>raw_record.truncate\<close> reads an entry as a record.
\<close>

definition getMediaStats ::
  "env \<Rightarrow> media_cache \<Rightarrow> string \<Rightarrow> string \<Rightarrow> string option \<Rightarrow> result \<times> media_cache" where
  "getMediaStats ev mediaCache org repo path =
     (case getMediaIndex ev mediaCache org repo path of
        (Index ix, cache1) \<Rightarrow>
          (let records = (case cache1 (cacheKey org repo path) of
                            Some hit \<Rightarrow> rawData hit
                          | None \<Rightarrow> map raw_record.truncate (data ix));
               st = count_all records
           in (Stats \<lparr>uniqueItems' = length (data ix),
                       totalReferences = length records,
                       byType = typeCount st,
                       unused = unusedCount st,
                       altText = altStatus st\<rparr>,
               cache1))
      | (other, cache1) \<Rightarrow> (other, cache1))"

subsection \<open>Usage lookup\<close>

text \<open>\<open>[...new Set(xs)]\<close>: the values in the order in which they were first added.\<close>

definition Set_values :: "'a list \<Rightarrow> 'a list" where
  "Set_values xs = foldl (\<lambda>seen x. if x \<in> set seen then seen else seen @ [x]) [] xs"

text \<open>The string held by a truthy value.\<close>

definition str_value :: "string option \<Rightarrow> string" where
  "str_value v = (case v of None \<Rightarrow> [] | Some s \<Rightarrow> s)"

text \<open>The value of \<open>groupingKey\<close> before the not-found test; \<open>None\<close> is \<open>null\<close>.\<close>

definition resolveGroupingKey ::
  "usage_detail list js_map \<Rightarrow> string option \<Rightarrow> string option \<Rightarrow> string option" where
  "resolveGroupingKey index mediaUrl mediaName =
     (if truthy mediaUrl then Some (getGroupingKey mediaUrl)
      else if truthy mediaName
           then find (\<lambda>key. str_includes key (toLowerCase (str_value mediaName))) (map fst index)
      else None)"

definition not_found :: usage_result where
  "not_found = \<lparr>mediaItem = None, usageCount' = 0, documents = [], allUsages = []\<rparr>"

text \<open>The part of \<open>findMediaUsage\<close> that runs on the cache entry.\<close>

definition usage_lookup :: "cache_entry \<Rightarrow> string option \<Rightarrow> string option \<Rightarrow> usage_result" where
  "usage_lookup hit mediaUrl mediaName =
     (case resolveGroupingKey (usageIndex hit) mediaUrl mediaName of
        None \<Rightarrow> not_found
      | Some groupingKey \<Rightarrow>
          if groupingKey = [] then not_found
          else
            (case map_of (usageIndex hit) groupingKey of
               None \<Rightarrow> not_found
             | Some usages \<Rightarrow>
                 \<lparr>mediaItem = find (\<lambda>item. getGroupingKey (url item) = groupingKey)
                                (uniqueItems hit),
                  usageCount' = length usages,
                  documents = Set_values (map str_value (filter truthy (map doc usages))),
                  allUsages = usages\<rparr>))"

definition findMediaUsage ::
  "env \<Rightarrow> media_cache \<Rightarrow> string \<Rightarrow> string \<Rightarrow> string option \<Rightarrow> string option \<Rightarrow> string option
   \<Rightarrow> result \<times> media_cache" where
  "findMediaUsage ev mediaCache org repo path mediaUrl mediaName =
     (case getMediaIndex ev mediaCache org repo path of
        (Index ix, cache1) \<Rightarrow>
          (case cache1 (cacheKey org repo path) of
             None \<Rightarrow> (NotLoaded ''Media data not loaded'', cache1)
           | Some hit \<Rightarrow> (Usage (usage_lookup hit mediaUrl mediaName), cache1))
      | (other, cache1) \<Rightarrow> (other, cache1))"

subsection \<open>Notions used to state the properties\<close>

text \<open>
  Order-preserving removal of duplicates as the specification words it: each value
  once, at the place of its first occurrence.
\<close>

primrec first_occurrences :: "'a list \<Rightarrow> 'a list" where
  "first_occurrences [] = []"
| "first_occurrences (x # xs) = x # removeAll x (first_occurrences xs)"

text \<open>The non-empty \<open>doc\<close> values of a usage list, in its order.\<close>

primrec nonempty_docs :: "usage_detail list \<Rightarrow> string list" where
  "nonempty_docs [] = []"
| "nonempty_docs (u # us) =
     (case doc u of
        None \<Rightarrow> nonempty_docs us
      | Some d \<Rightarrow> if d = [] then nonempty_docs us else d # nonempty_docs us)"

text \<open>The sum of the values of \<open>byType\<close>, when all of them are numbers.\<close>

primrec numeric_total :: "js_count js_map \<Rightarrow> nat option" where
  "numeric_total [] = Some 0"
| "numeric_total (p # ps) =
     (case snd p of
        Num n \<Rightarrow> (case numeric_total ps of Some m \<Rightarrow> Some (n + m) | None \<Rightarrow> None)
      | Str s \<Rightarrow> None)"

text \<open>The three alt-text counters together.\<close>

definition alt_sum :: "stats_state \<Rightarrow> nat" where
  "alt_sum st = filled (altStatus st) + decorative (altStatus st) + notFilled (altStatus st)"

subsection \<open>Sample data\<close>

text \<open>
  Three rows: \<open>a.png\<close> used by two pages (once with a query string), \<open>b.png\<close> used by
  none.
\<close>

definition sample_records :: "raw_record list" where
  "sample_records =
     [\<lparr>doc = Some ''p1'', alt = Some [], type = Some ''img'', firstUsedAt = Some 10,
       lastUsedAt = Some 20, hash = Some ''h1'', url = Some ''a.png?x=1'', extras = []\<rparr>,
      \<lparr>doc = Some ''p2'', alt = Some ''cat'', type = Some ''img'', firstUsedAt = Some 11,
       lastUsedAt = Some 21, hash = Some ''h1'', url = Some ''a.png'', extras = []\<rparr>,
      \<lparr>doc = Some [], alt = Some ''null'', type = None, firstUsedAt = None,
       lastUsedAt = None, hash = Some ''h2'', url = Some ''b.png'', extras = []\<rparr>]"

definition sample_entry :: catalogue_entry where
  "sample_entry =
     \<lparr>doc = Some ''p1'', alt = Some [], type = Some ''img'', firstUsedAt = Some 10,
      lastUsedAt = Some 20, hash = Some ''h1'', url = Some ''a.png?x=1'', extras = [],
      usageCount = 2\<rparr>"

text \<open>A row without a location identifier.\<close>

definition blank_row :: raw_record where
  "blank_row =
     \<lparr>doc = Some ''p3'', alt = None, type = Some ''img'', firstUsedAt = None,
      lastUsedAt = None, hash = None, url = Some [], extras = []\<rparr>"

definition sample_formatURL :: "string \<Rightarrow> string \<Rightarrow> string \<Rightarrow> string \<Rightarrow> string \<Rightarrow> string" where
  "sample_formatURL api org repo path ext =
     ''https://admin.da.live/'' @ api @ ''/'' @ org @ ''/'' @ repo @ path @ ''.'' @ ext"

text \<open>A remote that serves \<open>rows\<close>, and one that has no document.\<close>

definition serving :: "raw_record list \<Rightarrow> env" where
  "serving rows =
     \<lparr>formatURL = sample_formatURL, daAdminRequest = (\<lambda>u. Inr (Sheet rows)), now = 1700\<rparr>"

definition missing :: env where
  "missing =
     \<lparr>formatURL = sample_formatURL,
      daAdminRequest = (\<lambda>u. Inl \<lparr>error_name = ''Error'', message = ''Not Found''\<rparr>),
      now = 1700\<rparr>"

text \<open>
  Cache entries for the site \<open>org/repo\<close>: an outdated empty one, and one built from the
  sample.
\<close>

definition stale_entry :: cache_entry where
  "stale_entry = \<lparr>uniqueItems = [], usageIndex = [], rawData = [], fetchedAt = 5\<rparr>"

definition stale_cache :: media_cache where
  "stale_cache = [cacheKey ''org'' ''repo'' None \<mapsto> stale_entry]"

definition sample_hit :: cache_entry where
  "sample_hit =
     \<lparr>uniqueItems = uniqueItems (buildMediaStructures sample_records),
      usageIndex = usageIndex (buildMediaStructures sample_records),
      rawData = sample_records, fetchedAt = 1700\<rparr>"

definition sample_cache :: media_cache where
  "sample_cache = [cacheKey ''org'' ''repo'' None \<mapsto> sample_hit]"

text \<open>
  One picture used four times: by \<open>p1\<close>, by no document, by \<open>p2\<close> and by \<open>p1\<close> again.
\<close>

definition usage_row :: "string \<Rightarrow> raw_record" where
  "usage_row d =
     \<lparr>doc = Some d, alt = Some ''logo'', type = Some ''img'', firstUsedAt = None,
      lastUsedAt = None, hash = None, url = Some ''/media/Logo.PNG'', extras = []\<rparr>"

definition repeated_rows :: "raw_record list" where
  "repeated_rows = [usage_row ''p1'', usage_row [], usage_row ''p2'', usage_row ''p1'']"

definition repeated_hit :: cache_entry where
  "repeated_hit =
     \<lparr>uniqueItems = uniqueItems (buildMediaStructures repeated_rows),
      usageIndex = usageIndex (buildMediaStructures repeated_rows),
      rawData = repeated_rows, fetchedAt = 1700\<rparr>"

definition repeated_cache :: media_cache where
  "repeated_cache = [cacheKey ''org'' ''repo'' None \<mapsto> repeated_hit]"

text \<open>The statistics of the sample followed by the row without a location identifier.\<close>

definition sample_stats :: stats_result where
  "sample_stats =
     \<lparr>uniqueItems' = 2, totalReferences = 4,
      byType = [(''img'', Num 3), (''unknown'', Num 1)], unused = 1,
      altText = \<lparr>filled = 1, decorative = 2, notFilled = 1\<rparr>\<rparr>"

section \<open>The index builder, record by record\<close>

lemma sharing_snoc:
  "sharing k (rs @ [r]) =
     sharing k rs @ (if truthy (url r) \<and> getGroupingKey (url r) = k then [r] else [])"
  by (simp add: sharing_def)

lemma build_maps_Nil: "build_maps [] = ([], [])"
  by (simp add: build_maps_def)

lemma build_maps_snoc: "build_maps (rs @ [r]) = add_record (build_maps rs) r"
  by (simp add: build_maps_def)

lemma add_record_get_defined:
  "map_of (if map_of m k = None then AList.update k v m else m) k \<noteq> None"
  by (simp add: update_conv')

lemma add_record_skip: "\<not> truthy (url r) \<Longrightarrow> add_record st r = st"
  by (cases st) (simp add: add_record_def)

lemma add_record_catalogue_lookup:
  assumes "truthy (url r)"
  shows "map_of (fst (add_record (um, ui) r)) =
           (map_of um)(getGroupingKey (url r) \<mapsto>
              (case map_of um (getGroupingKey (url r)) of
                 None \<Rightarrow> (seed_entry r)\<lparr>usageCount := 1\<rparr>
               | Some e \<Rightarrow> e\<lparr>usageCount := usageCount e + 1\<rparr>))"
  using assms
  by (cases "map_of um (getGroupingKey (url r))")
     (simp_all add: add_record_def Let_def update_conv' seed_entry_def)

lemma add_record_usage_lookup:
  assumes "truthy (url r)"
  shows "map_of (snd (add_record (um, ui) r)) =
           (map_of ui)(getGroupingKey (url r) \<mapsto>
              (case map_of ui (getGroupingKey (url r)) of
                 None \<Rightarrow> [usage_of r]
               | Some us \<Rightarrow> us @ [usage_of r]))"
  using assms
  by (cases "map_of ui (getGroupingKey (url r))")
     (simp_all add: add_record_def Let_def update_conv')

lemma add_record_catalogue_keys:
  assumes "truthy (url r)"
  shows "map fst (fst (add_record (um, ui) r)) =
           (if getGroupingKey (url r) \<in> set (map fst um) then map fst um
            else map fst um @ [getGroupingKey (url r)])"
proof (cases "map_of um (getGroupingKey (url r))")
  case None
  then have "getGroupingKey (url r) \<notin> set (map fst um)"
    by (simp add: map_of_eq_None_iff)
  with None assms show ?thesis
    by (simp add: add_record_def Let_def update_conv' update_keys)
next
  case (Some e)
  then have "getGroupingKey (url r) \<in> set (map fst um)"
    by (metis map_of_eq_None_iff option.distinct(1) set_map)
  with Some assms show ?thesis
    by (simp add: add_record_def Let_def update_keys)
qed

lemma add_record_usage_keys:
  assumes "truthy (url r)"
  shows "map fst (snd (add_record (um, ui) r)) =
           (if getGroupingKey (url r) \<in> set (map fst ui) then map fst ui
            else map fst ui @ [getGroupingKey (url r)])"
proof (cases "map_of ui (getGroupingKey (url r))")
  case None
  then have "getGroupingKey (url r) \<notin> set (map fst ui)"
    by (simp add: map_of_eq_None_iff)
  with None assms show ?thesis
    by (simp add: add_record_def Let_def update_conv' update_keys)
next
  case (Some e)
  then have "getGroupingKey (url r) \<in> set (map fst ui)"
    by (metis map_of_eq_None_iff option.distinct(1) set_map)
  with Some assms show ?thesis
    by (simp add: add_record_def Let_def update_keys)
qed

lemma build_maps_same_keys: "map fst (fst (build_maps rs)) = map fst (snd (build_maps rs))"
proof (induction rs rule: rev_induct)
  case Nil
  show ?case by (simp add: build_maps_Nil)
next
  case (snoc r rs)
  obtain um ui where st: "build_maps rs = (um, ui)" by (cases "build_maps rs")
  show ?case
  proof (cases "truthy (url r)")
    case True
    with snoc st show ?thesis
      by (simp add: build_maps_snoc add_record_catalogue_keys add_record_usage_keys)
  next
    case False
    with snoc show ?thesis by (simp add: build_maps_snoc add_record_skip)
  qed
qed

lemma build_maps_distinct_keys: "distinct (map fst (fst (build_maps rs)))"
proof (induction rs rule: rev_induct)
  case Nil
  show ?case by (simp add: build_maps_Nil)
next
  case (snoc r rs)
  obtain um ui where st: "build_maps rs = (um, ui)" by (cases "build_maps rs")
  show ?case
  proof (cases "truthy (url r)")
    case True
    with snoc st show ?thesis
      by (simp add: build_maps_snoc add_record_catalogue_keys)
  next
    case False
    with snoc show ?thesis by (simp add: build_maps_snoc add_record_skip)
  qed
qed

lemma build_maps_usage_lookup:
  "map_of (snd (build_maps rs)) k =
     (if sharing k rs = [] then None else Some (map usage_of (sharing k rs)))"
proof (induction rs arbitrary: k rule: rev_induct)
  case Nil
  show ?case by (simp add: build_maps_Nil sharing_def)
next
  case (snoc r rs)
  obtain um ui where st: "build_maps rs = (um, ui)" by (cases "build_maps rs")
  show ?case
  proof (cases "truthy (url r)")
    case True
    with snoc st show ?thesis
      by (auto simp add: build_maps_snoc add_record_usage_lookup sharing_snoc)
  next
    case False
    with snoc show ?thesis by (simp add: build_maps_snoc add_record_skip sharing_snoc)
  qed
qed

lemma build_maps_catalogue_lookup:
  "map_of (fst (build_maps rs)) k =
     (if sharing k rs = [] then None
      else Some ((seed_entry (hd (sharing k rs)))\<lparr>usageCount := length (sharing k rs)\<rparr>))"
proof (induction rs arbitrary: k rule: rev_induct)
  case Nil
  show ?case by (simp add: build_maps_Nil sharing_def)
next
  case (snoc r rs)
  obtain um ui where st: "build_maps rs = (um, ui)" by (cases "build_maps rs")
  show ?case
  proof (cases "truthy (url r)")
    case True
    with snoc st show ?thesis
      by (auto simp add: build_maps_snoc add_record_catalogue_lookup sharing_snoc)
  next
    case False
    with snoc show ?thesis by (simp add: build_maps_snoc add_record_skip sharing_snoc)
  qed
qed


lemma sharing_member: "r \<in> set (sharing k rs) \<longleftrightarrow> r \<in> set rs \<and> truthy (url r) \<and> getGroupingKey (url r) = k"
  by (auto simp: sharing_def)

lemma sharing_hd:
  assumes "sharing k rs \<noteq> []"
  shows "truthy (url (hd (sharing k rs)))" and "getGroupingKey (url (hd (sharing k rs))) = k"
    and "hd (sharing k rs) \<in> set rs"
proof -
  from assms have "hd (sharing k rs) \<in> set (sharing k rs)" by simp
  then show "truthy (url (hd (sharing k rs)))" and "getGroupingKey (url (hd (sharing k rs))) = k"
    and "hd (sharing k rs) \<in> set rs"
    by (simp_all add: sharing_member)
qed

lemma find_as_filter:
  "find P xs = (if filter P xs = [] then None else Some (hd (filter P xs)))"
  by (induction xs) simp_all

lemma sharing_find:
  "find (\<lambda>r. truthy (url r) \<and> getGroupingKey (url r) = k) rs =
     (if sharing k rs = [] then None else Some (hd (sharing k rs)))"
  by (simp add: sharing_def find_as_filter)

lemma seed_entry_fields:
  "raw_record.truncate ((seed_entry r)\<lparr>usageCount := n\<rparr>) = r"
  "usageCount ((seed_entry r)\<lparr>usageCount := n\<rparr>) = n"
  "url ((seed_entry r)\<lparr>usageCount := n\<rparr>) = url r"
  by (simp_all add: seed_entry_def raw_record.defs)

lemma catalogue_entry_iff:
  "(k, e) \<in> set (fst (build_maps rs)) \<longleftrightarrow>
     sharing k rs \<noteq> [] \<and> e = (seed_entry (hd (sharing k rs)))\<lparr>usageCount := length (sharing k rs)\<rparr>"
proof -
  have "(k, e) \<in> set (fst (build_maps rs)) \<longleftrightarrow> map_of (fst (build_maps rs)) k = Some e"
    using build_maps_distinct_keys [of rs] by simp
  then show ?thesis
    by (auto simp: build_maps_catalogue_lookup)
qed

lemma uniqueItems_member:
  "e \<in> set (uniqueItems (buildMediaStructures rs)) \<longleftrightarrow>
     (\<exists>k. sharing k rs \<noteq> [] \<and> e = (seed_entry (hd (sharing k rs)))\<lparr>usageCount := length (sharing k rs)\<rparr>)"
proof -
  obtain um ui where st: "build_maps rs = (um, ui)" by (cases "build_maps rs")
  have "e \<in> set (uniqueItems (buildMediaStructures rs)) \<longleftrightarrow> (\<exists>k. (k, e) \<in> set (fst (build_maps rs)))"
    by (force simp: buildMediaStructures_def st)
  then show ?thesis by (simp add: catalogue_entry_iff)
qed

lemma uniqueItems_member_key:
  assumes "e \<in> set (uniqueItems (buildMediaStructures rs))"
  shows "sharing (getGroupingKey (url e)) rs \<noteq> []"
    and "e = (seed_entry (hd (sharing (getGroupingKey (url e)) rs)))
               \<lparr>usageCount := length (sharing (getGroupingKey (url e)) rs)\<rparr>"
proof -
  from assms obtain k where k: "sharing k rs \<noteq> []"
    and e: "e = (seed_entry (hd (sharing k rs)))\<lparr>usageCount := length (sharing k rs)\<rparr>"
    by (auto simp: uniqueItems_member)
  have "getGroupingKey (url e) = k"
    by (simp add: e seed_entry_fields sharing_hd [OF k])
  with k e show "sharing (getGroupingKey (url e)) rs \<noteq> []"
    and "e = (seed_entry (hd (sharing (getGroupingKey (url e)) rs)))
               \<lparr>usageCount := length (sharing (getGroupingKey (url e)) rs)\<rparr>"
    by simp_all
qed

lemma usageIndex_lookup:
  "map_of (usageIndex (buildMediaStructures rs)) k =
     (if sharing k rs = [] then None else Some (map usage_of (sharing k rs)))"
proof -
  obtain um ui where st: "build_maps rs = (um, ui)" by (cases "build_maps rs")
  have "usageIndex (buildMediaStructures rs) = snd (build_maps rs)"
    by (simp add: buildMediaStructures_def st)
  then show ?thesis by (simp add: build_maps_usage_lookup)
qed

lemma build_maps_filter:
  "build_maps (filter (\<lambda>r. truthy (url r)) rs) = build_maps rs"
proof (induction rs rule: rev_induct)
  case Nil
  show ?case by simp
next
  case (snoc r rs)
  then show ?case
    by (cases "truthy (url r)") (simp_all add: build_maps_snoc add_record_skip)
qed

lemma catalogue_keys:
  "set (map fst (fst (build_maps rs))) =
     set (map (\<lambda>r. getGroupingKey (url r)) (filter (\<lambda>r. truthy (url r)) rs))"
proof -
  have "k \<in> set (map fst (fst (build_maps rs))) \<longleftrightarrow>
        k \<in> set (map (\<lambda>r. getGroupingKey (url r)) (filter (\<lambda>r. truthy (url r)) rs))" for k
  proof -
    have "k \<in> set (map fst (fst (build_maps rs))) \<longleftrightarrow> map_of (fst (build_maps rs)) k \<noteq> None"
      by (simp add: map_of_eq_None_iff)
    also have "\<dots> \<longleftrightarrow> sharing k rs \<noteq> []"
      by (simp add: build_maps_catalogue_lookup)
    also have "\<dots> \<longleftrightarrow> (\<exists>r \<in> set rs. truthy (url r) \<and> getGroupingKey (url r) = k)"
      by (auto simp: sharing_def filter_empty_conv)
    also have "\<dots> \<longleftrightarrow> k \<in> set (map (\<lambda>r. getGroupingKey (url r)) (filter (\<lambda>r. truthy (url r)) rs))"
      by auto
    finally show ?thesis .
  qed
  then show ?thesis by blast
qed

lemma uniqueItems_length:
  "length (uniqueItems (buildMediaStructures rs)) =
     card (set (map (\<lambda>r. getGroupingKey (url r)) (filter (\<lambda>r. truthy (url r)) rs)))"
proof -
  obtain um ui where st: "build_maps rs = (um, ui)" by (cases "build_maps rs")
  have "length (uniqueItems (buildMediaStructures rs)) = length (map fst (fst (build_maps rs)))"
    by (simp add: buildMediaStructures_def st)
  also have "\<dots> = card (set (map fst (fst (build_maps rs))))"
    by (rule distinct_card [symmetric]) (rule build_maps_distinct_keys)
  finally show ?thesis by (simp only: catalogue_keys)
qed

lemma buildMediaStructures_filter:
  "uniqueItems (buildMediaStructures (filter (\<lambda>r. truthy (url r)) rs)) = uniqueItems (buildMediaStructures rs)"
  "usageIndex (buildMediaStructures (filter (\<lambda>r. truthy (url r)) rs)) = usageIndex (buildMediaStructures rs)"
  by (simp_all add: buildMediaStructures_def build_maps_filter split: prod.splits)

lemma filter_key_distinct:
  "distinct (map fst al) \<Longrightarrow>
     filter (\<lambda>p. fst p = k) al = (case map_of al k of None \<Rightarrow> [] | Some v \<Rightarrow> [(k, v)])"
proof (induction al)
  case Nil
  show ?case by simp
next
  case (Cons p al)
  obtain k' v' where p: "p = (k', v')" by (cases p)
  show ?case
  proof (cases "k' = k")
    case True
    with Cons.prems p have "k \<notin> fst ` set al" by simp
    then have "filter (\<lambda>p. fst p = k) al = []"
      by (auto simp: filter_empty_conv)
    with True p show ?thesis by simp
  next
    case False
    with Cons p show ?thesis by simp
  qed
qed

lemma uniqueItems_for_key:
  "filter (\<lambda>item. getGroupingKey (url item) = k) (uniqueItems (buildMediaStructures rs)) =
     (if sharing k rs = [] then []
      else [(seed_entry (hd (sharing k rs)))\<lparr>usageCount := length (sharing k rs)\<rparr>])"
proof -
  obtain um ui where st: "build_maps rs = (um, ui)" by (cases "build_maps rs")
  have um: "um = fst (build_maps rs)" by (simp add: st)
  have keyed: "getGroupingKey (url (snd p)) = fst p" if "p \<in> set um" for p
  proof -
    from that have "(fst p, snd p) \<in> set (fst (build_maps rs))" by (simp add: um)
    then have "sharing (fst p) rs \<noteq> [] \<and>
        snd p = (seed_entry (hd (sharing (fst p) rs)))\<lparr>usageCount := length (sharing (fst p) rs)\<rparr>"
      using catalogue_entry_iff [of "fst p" "snd p" rs] by blast
    then have ne: "sharing (fst p) rs \<noteq> []"
      and e: "snd p = (seed_entry (hd (sharing (fst p) rs)))\<lparr>usageCount := length (sharing (fst p) rs)\<rparr>"
      by blast+
    show ?thesis
      by (subst e) (simp add: seed_entry_fields sharing_hd(2) [OF ne])
  qed
  have "filter (\<lambda>item. getGroupingKey (url item) = k) (uniqueItems (buildMediaStructures rs))
        = map snd (filter (\<lambda>p. getGroupingKey (url (snd p)) = k) um)"
    by (simp add: buildMediaStructures_def st filter_map comp_def)
  also have "filter (\<lambda>p. getGroupingKey (url (snd p)) = k) um = filter (\<lambda>p. fst p = k) um"
    by (rule filter_cong) (simp_all add: keyed)
  also have "\<dots> = (case map_of um k of None \<Rightarrow> [] | Some v \<Rightarrow> [(k, v)])"
    by (rule filter_key_distinct) (simp add: um build_maps_distinct_keys)
  finally show ?thesis
    by (simp add: um build_maps_catalogue_lookup)
qed

lemma usageIndex_keys:
  "k \<in> fst ` set (usageIndex (buildMediaStructures rs)) \<longleftrightarrow> sharing k rs \<noteq> []"
proof -
  have "k \<in> fst ` set (usageIndex (buildMediaStructures rs)) \<longleftrightarrow>
        map_of (usageIndex (buildMediaStructures rs)) k \<noteq> None"
    by (simp add: map_of_eq_None_iff)
  then show ?thesis by (simp add: usageIndex_lookup)
qed

section \<open>The cache and the operations on it\<close>

text \<open>\<open>getMediaIndex\<close> has three outcomes: a hit, a caught failure, a fresh build.\<close>

lemma getMediaIndex_hit:
  "mediaCache (cacheKey org repo path) = Some hit \<Longrightarrow>
   getMediaIndex ev mediaCache org repo path =
     (Index \<lparr>data = uniqueItems hit, total = length (uniqueItems hit),
              fetchedAt' = fetchedAt hit, cached = True\<rparr>, mediaCache)"
  by (simp add: getMediaIndex_def)

lemma getMediaIndex_rejected:
  "mediaCache (cacheKey org repo path) = None \<Longrightarrow>
   daAdminRequest ev (buildMediaUrl ev org repo path) = Inl err \<Longrightarrow>
   getMediaIndex ev mediaCache org repo path =
     (Failure (buildErrorResponse ev org repo path err), mediaCache)"
  by (simp add: getMediaIndex_def)

lemma getMediaIndex_malformed:
  "mediaCache (cacheKey org repo path) = None \<Longrightarrow>
   daAdminRequest ev (buildMediaUrl ev org repo path) = Inr d \<Longrightarrow>
   mediaData_of d = Inl err \<Longrightarrow>
   getMediaIndex ev mediaCache org repo path =
     (Failure (buildErrorResponse ev org repo path err), mediaCache)"
  by (simp add: getMediaIndex_def)

lemma getMediaIndex_built:
  "mediaCache (cacheKey org repo path) = None \<Longrightarrow>
   daAdminRequest ev (buildMediaUrl ev org repo path) = Inr d \<Longrightarrow>
   mediaData_of d = Inr rows \<Longrightarrow>
   getMediaIndex ev mediaCache org repo path =
     (Index \<lparr>data = uniqueItems (buildMediaStructures rows),
              total = length (uniqueItems (buildMediaStructures rows)),
              fetchedAt' = now ev, cached = False\<rparr>,
      mediaCache(cacheKey org repo path \<mapsto>
        \<lparr>uniqueItems = uniqueItems (buildMediaStructures rows),
         usageIndex = usageIndex (buildMediaStructures rows),
         rawData = rawData (buildMediaStructures rows),
         fetchedAt = now ev\<rparr>))"
  by (simp add: getMediaIndex_def Let_def)

lemma rawData_build: "rawData (buildMediaStructures rows) = rows"
  by (simp add: buildMediaStructures_def split: prod.splits)

text \<open>Every outcome of getMediaIndex\<close>
lemma getMediaIndex_cases:
  obtains
    (hit) hit where "mediaCache (cacheKey org repo path) = Some hit"
      "getMediaIndex ev mediaCache org repo path =
         (Index \<lparr>data = uniqueItems hit, total = length (uniqueItems hit),
              fetchedAt' = fetchedAt hit, cached = True\<rparr>, mediaCache)"
  | (failed) err where "mediaCache (cacheKey org repo path) = None"
      "getMediaIndex ev mediaCache org repo path =
         (Failure (buildErrorResponse ev org repo path err), mediaCache)"
  | (built) d rows where "mediaCache (cacheKey org repo path) = None"
      "daAdminRequest ev (buildMediaUrl ev org repo path) = Inr d"
      "mediaData_of d = Inr rows"
      "getMediaIndex ev mediaCache org repo path =
     (Index \<lparr>data = uniqueItems (buildMediaStructures rows),
              total = length (uniqueItems (buildMediaStructures rows)),
              fetchedAt' = now ev, cached = False\<rparr>,
      mediaCache(cacheKey org repo path \<mapsto>
        \<lparr>uniqueItems = uniqueItems (buildMediaStructures rows),
         usageIndex = usageIndex (buildMediaStructures rows),
         rawData = rows,
         fetchedAt = now ev\<rparr>))"
proof (cases "mediaCache (cacheKey org repo path)")
  case (Some hit)
  then have "getMediaIndex ev mediaCache org repo path =
         (Index \<lparr>data = uniqueItems hit, total = length (uniqueItems hit),
              fetchedAt' = fetchedAt hit, cached = True\<rparr>, mediaCache)"
    by (rule getMediaIndex_hit)
  with Some show ?thesis by (rule hit)
next
  case None
  show ?thesis
  proof (cases "daAdminRequest ev (buildMediaUrl ev org repo path)")
    case (Inl err)
    from None Inl have "getMediaIndex ev mediaCache org repo path =
         (Failure (buildErrorResponse ev org repo path err), mediaCache)"
      by (rule getMediaIndex_rejected)
    with None show ?thesis by (rule failed)
  next
    case (Inr d)
    show ?thesis
    proof (cases "mediaData_of d")
      case (Inl err)
      from None Inr Inl have "getMediaIndex ev mediaCache org repo path =
         (Failure (buildErrorResponse ev org repo path err), mediaCache)"
        by (rule getMediaIndex_malformed)
      with None show ?thesis by (rule failed)
    next
      case rows: (Inr rows)
      show ?thesis
        using built [OF None Inr rows] getMediaIndex_built [of mediaCache org repo path ev d rows] None Inr rows
        by (simp add: rawData_build)
    qed
  qed
qed


lemma getMediaIndex_again:
  assumes "getMediaIndex ev mediaCache org repo path = (Index ix, cache1)"
  shows "getMediaIndex ev2 cache1 org repo path = (Index (ix\<lparr>cached := True\<rparr>), cache1)"
proof (cases rule: getMediaIndex_cases [of mediaCache org repo path ev])
  case (hit h)
  with assms have "ix = \<lparr>data = uniqueItems h, total = length (uniqueItems h),
       fetchedAt' = fetchedAt h, cached = True\<rparr>" and "cache1 = mediaCache"
    by simp_all
  with hit(1) show ?thesis by (simp add: getMediaIndex_hit)
next
  case (failed err)
  with assms show ?thesis by simp
next
  case (built d rows)
  with assms have ix: "ix = \<lparr>data = uniqueItems (buildMediaStructures rows),
              total = length (uniqueItems (buildMediaStructures rows)),
              fetchedAt' = now ev, cached = False\<rparr>"
    and c: "cache1 = mediaCache(cacheKey org repo path \<mapsto>
        \<lparr>uniqueItems = uniqueItems (buildMediaStructures rows),
         usageIndex = usageIndex (buildMediaStructures rows),
         rawData = rows,
         fetchedAt = now ev\<rparr>)"
    by simp_all
  show ?thesis
    by (simp add: ix c getMediaIndex_hit)
qed

lemma findMediaUsage_hit:
  assumes "getMediaIndex ev mediaCache org repo path = (Index ix, cache1)"
    and "cache1 (cacheKey org repo path) = Some hit"
  shows "findMediaUsage ev mediaCache org repo path mediaUrl mediaName =
           (Usage (usage_lookup hit mediaUrl mediaName), cache1)"
  using assms by (simp add: findMediaUsage_def)

lemma find_None_iff': "find P xs = None \<longleftrightarrow> (\<forall>x \<in> set xs. \<not> P x)"
  by (induction xs) auto

lemma usage_lookup_unresolved:
  assumes "(\<not> truthy mediaUrl \<and> \<not> truthy mediaName)
         \<or> (truthy mediaUrl \<and> getGroupingKey mediaUrl \<notin> fst ` set (usageIndex hit))
         \<or> (\<not> truthy mediaUrl \<and> truthy mediaName
             \<and> (\<forall>key \<in> fst ` set (usageIndex hit).
                    \<not> str_includes key (toLowerCase (str_value mediaName))))"
  shows "usage_lookup hit mediaUrl mediaName = not_found"
  using assms
proof (elim disjE conjE)
  assume "\<not> truthy mediaUrl" "\<not> truthy mediaName"
  then show ?thesis by (simp add: usage_lookup_def resolveGroupingKey_def)
next
  assume u: "truthy mediaUrl" and k: "getGroupingKey mediaUrl \<notin> fst ` set (usageIndex hit)"
  from k have "map_of (usageIndex hit) (getGroupingKey mediaUrl) = None"
    by (simp add: map_of_eq_None_iff)
  with u show ?thesis by (simp add: usage_lookup_def resolveGroupingKey_def)
next
  assume u: "\<not> truthy mediaUrl" and n: "truthy mediaName"
    and k: "\<forall>key \<in> fst ` set (usageIndex hit). \<not> str_includes key (toLowerCase (str_value mediaName))"
  from k have "find (\<lambda>key. str_includes key (toLowerCase (str_value mediaName)))
                 (map fst (usageIndex hit)) = None"
    by (simp add: find_None_iff')
  with u n show ?thesis by (simp add: usage_lookup_def resolveGroupingKey_def)
qed

section \<open>Removal of duplicates\<close>

lemma first_occurrences_removeAll:
  "removeAll x (first_occurrences ys) = first_occurrences (removeAll x ys)"
proof (induction ys)
  case Nil
  show ?case by simp
next
  case (Cons y ys)
  show ?case
  proof (cases "y = x")
    case True
    have "removeAll x (removeAll x (first_occurrences ys)) = removeAll x (first_occurrences ys)"
      by simp
    with True Cons show ?thesis by simp
  next
    case False
    have "removeAll x (removeAll y (first_occurrences ys)) =
          removeAll y (removeAll x (first_occurrences ys))"
      by (simp add: removeAll_filter_not_eq) (metis (mono_tags, lifting) filter_cong)
    with False Cons show ?thesis by simp
  qed
qed

lemma set_first_occurrences: "set (first_occurrences xs) = set xs"
  by (induction xs) auto

lemma distinct_first_occurrences: "distinct (first_occurrences xs)"
  by (induction xs) (simp_all add: distinct_removeAll)

lemma Set_values_from:
  "foldl (\<lambda>seen x. if x \<in> set seen then seen else seen @ [x]) seen xs =
     seen @ first_occurrences (filter (\<lambda>x. x \<notin> set seen) xs)"
proof (induction xs arbitrary: seen)
  case Nil
  show ?case by simp
next
  case (Cons x xs)
  show ?case
  proof (cases "x \<in> set seen")
    case True
    with Cons show ?thesis by simp
  next
    case False
    have "filter (\<lambda>y. y \<notin> set (seen @ [x])) xs = removeAll x (filter (\<lambda>y. y \<notin> set seen) xs)"
      by (induction xs) auto
    with False Cons [of "seen @ [x]"] show ?thesis
      by (simp add: first_occurrences_removeAll)
  qed
qed

lemma Set_values_first_occurrences: "Set_values xs = first_occurrences xs"
  using Set_values_from [of "[]" xs] by (simp add: Set_values_def)

lemma truthy_docs_nonempty:
  "map str_value (filter truthy (map doc usages)) = nonempty_docs usages"
  by (induction usages) (auto simp: truthy_def str_value_def split: option.splits)

lemma set_nonempty_docs:
  "set (nonempty_docs usages) = {d. d \<noteq> [] \<and> Some d \<in> doc ` set usages}"
  by (induction usages) (auto split: option.splits simp: image_iff)

lemma usage_lookup_documents:
  "documents (usage_lookup hit mediaUrl mediaName) =
     first_occurrences (nonempty_docs (allUsages (usage_lookup hit mediaUrl mediaName)))"
  "usageCount' (usage_lookup hit mediaUrl mediaName) =
     length (allUsages (usage_lookup hit mediaUrl mediaName))"
  by (simp_all add: usage_lookup_def not_found_def Set_values_first_occurrences
        truthy_docs_nonempty split: option.splits)

lemma usage_lookup_resolved:
  assumes "resolveGroupingKey (usageIndex hit) mediaUrl mediaName = Some k"
    and "k \<noteq> []" and "map_of (usageIndex hit) k = Some usages"
  shows "allUsages (usage_lookup hit mediaUrl mediaName) = usages"
  using assms by (simp add: usage_lookup_def)

section \<open>Counting\<close>

lemma numeric_total_values:
  "numeric_total al = Some t \<Longrightarrow> map_of al k = Some v \<Longrightarrow> \<exists>n. v = Num n"
proof (induction al arbitrary: t)
  case Nil
  then show ?case by simp
next
  case (Cons p al)
  then show ?case
    by (cases p) (auto split: js_count.splits option.splits if_splits)
qed

lemma numeric_total_update_own:
  "numeric_total al = Some t \<Longrightarrow> map_of al k = Some (Num n) \<Longrightarrow>
   numeric_total (AList.update k (Num (Suc n)) al) = Some (Suc t)"
proof (induction al arbitrary: t)
  case Nil
  then show ?case by simp
next
  case (Cons p al)
  then show ?case
    by (cases p) (auto split: js_count.splits option.splits if_splits)
qed

lemma numeric_total_update_new:
  "numeric_total al = Some t \<Longrightarrow> map_of al k = None \<Longrightarrow>
   numeric_total (AList.update k (Num (Suc 0)) al) = Some (Suc t)"
proof (induction al arbitrary: t)
  case Nil
  then show ?case by simp
next
  case (Cons p al)
  then show ?case
    by (cases p) (auto split: js_count.splits option.splits if_splits)
qed

lemma inherited_text_proto: "inherited_text k = None \<Longrightarrow> k \<noteq> ''__proto__''"
  by (auto simp: inherited_text_def)

lemma count_record_typeCount:
  assumes "inherited_text (type_label r) = None"
    and "numeric_total (typeCount st) = Some t"
  shows "numeric_total (typeCount (count_record st r)) = Some (t + 1)"
proof (cases "map_of (typeCount st) (type_label r)")
  case None
  with assms inherited_text_proto [OF assms(1)] show ?thesis
    by (simp add: count_record_def Let_def assign_count_def read_or_zero_def plus_one_def
          numeric_total_update_new)
next
  case (Some v)
  with numeric_total_values [OF assms(2) Some] obtain n where v: "v = Num n" by blast
  with Some assms inherited_text_proto [OF assms(1)] show ?thesis
    by (simp add: count_record_def Let_def assign_count_def read_or_zero_def plus_one_def
          numeric_total_update_own)
qed

lemma count_record_alt: "alt_sum (count_record st r) = alt_sum st + 1"
  by (simp add: count_record_def Let_def alt_sum_def)

lemma foldl_count_record_alt:
  "alt_sum (foldl count_record st rs) = alt_sum st + length rs"
  by (induction rs arbitrary: st) (simp_all add: count_record_alt)

lemma foldl_count_record_types:
  "\<forall>r \<in> set rs. inherited_text (type_label r) = None \<Longrightarrow>
   numeric_total (typeCount st) = Some t \<Longrightarrow>
   numeric_total (typeCount (foldl count_record st rs)) = Some (t + length rs)"
proof (induction rs arbitrary: st t)
  case Nil
  then show ?case by simp
next
  case (Cons r rs)
  from Cons.prems have "numeric_total (typeCount (count_record st r)) = Some (t + 1)"
    by (simp add: count_record_typeCount)
  with Cons.prems Cons.IH [of "count_record st r" "t + 1"] show ?case by simp
qed

lemma count_all_alt:
  "filled (altStatus (count_all rs)) + decorative (altStatus (count_all rs))
     + notFilled (altStatus (count_all rs)) = length rs"
  using foldl_count_record_alt [of "\<lparr>typeCount = [], unusedCount = 0,
        altStatus = \<lparr>filled = 0, decorative = 0, notFilled = 0\<rparr>\<rparr>" rs]
  by (simp add: count_all_def alt_sum_def)

lemma count_all_types:
  "\<forall>r \<in> set rs. inherited_text (type_label r) = None \<Longrightarrow>
   numeric_total (typeCount (count_all rs)) = Some (length rs)"
  using foldl_count_record_types [of rs "\<lparr>typeCount = [], unusedCount = 0,
        altStatus = \<lparr>filled = 0, decorative = 0, notFilled = 0\<rparr>\<rparr>" 0]
  by (simp add: count_all_def)

lemma getMediaStats_hit:
  assumes "getMediaIndex ev mediaCache org repo path = (Index ix, cache1)"
    and "cache1 (cacheKey org repo path) = Some hit"
  shows "getMediaStats ev mediaCache org repo path =
           (Stats \<lparr>uniqueItems' = length (data ix),
                    totalReferences = length (rawData hit),
                    byType = typeCount (count_all (rawData hit)),
                    unused = unusedCount (count_all (rawData hit)),
                    altText = altStatus (count_all (rawData hit))\<rparr>, cache1)"
  using assms by (simp add: getMediaStats_def Let_def)

text \<open>
  A type label that names an inherited member is not counted: the first \<open>+ 1\<close> is
  applied to the inherited function and gives a string.
\<close>

lemma count_all_inherited_name:
  "typeCount (count_all [blank_row\<lparr>type := Some ''constructor''\<rparr>]) =
     [(''constructor'', Str ''function Object() { [native code] }1'')]"
  "typeCount (count_all [blank_row\<lparr>type := Some ''__proto__''\<rparr>]) = []"
  by code_simp+

section \<open>Properties\<close>

text \<open>
  C1. Whatever the raw records are, every catalogue entry built from them has a
  \<open>usageCount\<close> equal to the length of the usage list that the usage index stores under
  the entry's canonical key.
\<close>

theorem usageCount_matches_usageIndex:
  "\<forall>e \<in> set (uniqueItems (buildMediaStructures records)).
     \<exists>usages. map_of (usageIndex (buildMediaStructures records)) (getGroupingKey (url e)) = Some usages
        \<and> usageCount e = length usages"
proof
  fix e
  assume mem: "e \<in> set (uniqueItems (buildMediaStructures records))"
  let ?k = "getGroupingKey (url e)"
  have ne: "sharing ?k records \<noteq> []" by (rule uniqueItems_member_key(1) [OF mem])
  have "usageCount e = length (sharing ?k records)"
    by (subst uniqueItems_member_key(2) [OF mem]) (simp only: seed_entry_fields)
  with ne show "\<exists>usages. map_of (usageIndex (buildMediaStructures records)) ?k = Some usages
        \<and> usageCount e = length usages"
    by (simp add: usageIndex_lookup)
qed

theorem usageCount_matches_usageIndex_witness:
  "sample_entry \<in> set (uniqueItems (buildMediaStructures sample_records))
   \<and> (\<exists>usages. map_of (usageIndex (buildMediaStructures sample_records)) ''a.png'' = Some usages
         \<and> length usages = 2)"
proof -
  have mem: "sample_entry \<in> set (uniqueItems (buildMediaStructures sample_records))"
    by code_simp
  have key: "getGroupingKey (url sample_entry) = ''a.png''"
    by code_simp
  have cnt: "usageCount sample_entry = 2"
    by (simp add: sample_entry_def)
  from usageCount_matches_usageIndex [of sample_records] mem
  have "\<exists>usages. map_of (usageIndex (buildMediaStructures sample_records))
                    (getGroupingKey (url sample_entry)) = Some usages
           \<and> usageCount sample_entry = length usages"
    by blast
  with mem key cnt show ?thesis by simp
qed

text \<open>
  C2. Whenever \<open>get_stats\<close> returns statistics, the site has a cache entry, and
  \<open>totalReferences\<close> is the length of its \<open>rawData\<close>, which for a fresh build is the
  whole fetched sequence, the records without a location identifier included. The three
  alt-text counters add up to \<open>totalReferences\<close>. The values of \<open>byType\<close> are numbers that
  add up to \<open>totalReferences\<close> when no record's type label is a name that an object
  inherits from \<open>Object.prototype\<close>.
\<close>

theorem stats_totals:
  assumes "getMediaStats ev mediaCache org repo path = (Stats st, cache1)"
  shows "\<exists>hit. cache1 (cacheKey org repo path) = Some hit
           \<and> totalReferences st = length (rawData hit)
           \<and> (mediaCache (cacheKey org repo path) = None \<longrightarrow>
                (\<exists>d. daAdminRequest ev (buildMediaUrl ev org repo path) = Inr d
                    \<and> mediaData_of d = Inr (rawData hit)))
           \<and> filled (altText st) + decorative (altText st) + notFilled (altText st)
               = totalReferences st
           \<and> ((\<forall>r \<in> set (rawData hit). inherited_text (type_label r) = None) \<longrightarrow>
                numeric_total (byType st) = Some (totalReferences st))"
proof -
  have "\<exists>ix c hit. getMediaIndex ev mediaCache org repo path = (Index ix, c)
            \<and> c (cacheKey org repo path) = Some hit
            \<and> (mediaCache (cacheKey org repo path) = None \<longrightarrow>
                (\<exists>d. daAdminRequest ev (buildMediaUrl ev org repo path) = Inr d
                    \<and> mediaData_of d = Inr (rawData hit)))"
  proof (cases rule: getMediaIndex_cases [of mediaCache org repo path ev])
    case (hit h)
    then show ?thesis by simp
  next
    case (failed err)
    with assms show ?thesis by (simp add: getMediaStats_def)
  next
    case (built d rows)
    then show ?thesis by simp
  qed
  then obtain ix c hit where
    "getMediaIndex ev mediaCache org repo path = (Index ix, c)
      \<and> c (cacheKey org repo path) = Some hit
      \<and> (mediaCache (cacheKey org repo path) = None \<longrightarrow>
                (\<exists>d. daAdminRequest ev (buildMediaUrl ev org repo path) = Inr d
                    \<and> mediaData_of d = Inr (rawData hit)))"
    by (elim exE)
  then have idx: "getMediaIndex ev mediaCache org repo path = (Index ix, c)"
    and hit: "c (cacheKey org repo path) = Some hit"
    and fresh: "mediaCache (cacheKey org repo path) = None \<longrightarrow>
                (\<exists>d. daAdminRequest ev (buildMediaUrl ev org repo path) = Inr d
                    \<and> mediaData_of d = Inr (rawData hit))"
    by simp_all
  from getMediaStats_hit [OF idx hit] assms
  have st: "st = \<lparr>uniqueItems' = length (data ix),
                    totalReferences = length (rawData hit),
                    byType = typeCount (count_all (rawData hit)),
                    unused = unusedCount (count_all (rawData hit)),
                    altText = altStatus (count_all (rawData hit))\<rparr>"
    and c: "cache1 = c" by simp_all
  have total: "totalReferences st = length (rawData hit)" by (simp add: st)
  have alts: "filled (altText st) + decorative (altText st) + notFilled (altText st)
               = totalReferences st"
    by (simp add: st count_all_alt)
  have types: "(\<forall>r \<in> set (rawData hit). inherited_text (type_label r) = None) \<longrightarrow>
                numeric_total (byType st) = Some (totalReferences st)"
    by (simp add: st count_all_types)
  show ?thesis
    unfolding c by (intro exI [of _ hit] conjI hit total fresh alts types)
qed

theorem stats_totals_witness:
  "fst (getMediaStats (serving (sample_records @ [blank_row])) Map.empty ''org'' ''repo'' None)
     = Stats sample_stats
   \<and> list_all (\<lambda>r. inherited_text (type_label r) = None) (sample_records @ [blank_row])
   \<and> (\<exists>hit. snd (getMediaStats (serving (sample_records @ [blank_row])) Map.empty ''org'' ''repo'' None)
                 (cacheKey ''org'' ''repo'' None) = Some hit
            \<and> rawData hit = sample_records @ [blank_row]
            \<and> totalReferences sample_stats = length (rawData hit)
            \<and> numeric_total (byType sample_stats) = Some (totalReferences sample_stats))"
proof -
  let ?ev = "serving (sample_records @ [blank_row])"
  let ?run = "getMediaStats ?ev Map.empty ''org'' ''repo'' None"
  have result: "fst ?run = Stats sample_stats"
    by code_simp
  then have run: "?run = (Stats sample_stats, snd ?run)"
    by (metis prod.collapse)
  have miss: "(Map.empty :: media_cache) (cacheKey ''org'' ''repo'' None) = None"
    by simp
  have plain: "list_all (\<lambda>r. inherited_text (type_label r) = None) (sample_records @ [blank_row])"
    by code_simp
  from stats_totals [OF run] obtain hit where
    hit: "snd ?run (cacheKey ''org'' ''repo'' None) = Some hit"
    and total: "totalReferences sample_stats = length (rawData hit)"
    and fresh: "(Map.empty :: media_cache) (cacheKey ''org'' ''repo'' None) = None \<longrightarrow>
                (\<exists>d. daAdminRequest ?ev (buildMediaUrl ?ev ''org'' ''repo'' None) = Inr d
                    \<and> mediaData_of d = Inr (rawData hit))"
    and types: "(\<forall>r \<in> set (rawData hit). inherited_text (type_label r) = None) \<longrightarrow>
                numeric_total (byType sample_stats) = Some (totalReferences sample_stats)"
    by blast
  from fresh miss have raw: "rawData hit = sample_records @ [blank_row]"
    by (auto simp: serving_def mediaData_of_def)
  from plain have "\<forall>r \<in> set (rawData hit). inherited_text (type_label r) = None"
    unfolding raw by (simp only: list_all_iff)
  with types have "numeric_total (byType sample_stats) = Some (totalReferences sample_stats)"
    by blast
  with hit raw total have "\<exists>hit. snd ?run (cacheKey ''org'' ''repo'' None) = Some hit
            \<and> rawData hit = sample_records @ [blank_row]
            \<and> totalReferences sample_stats = length (rawData hit)
            \<and> numeric_total (byType sample_stats) = Some (totalReferences sample_stats)"
    by blast
  with result plain show ?thesis by (intro conjI)
qed

text \<open>
  Four raw records, one of them without a location identifier: \<open>totalReferences\<close> is 4,
  while 3 records remain after the exclusion.
\<close>

theorem stats_totals_counterexample:
  "fst (getMediaStats (serving (sample_records @ [blank_row])) Map.empty ''org'' ''repo'' None)
     = Stats \<lparr>uniqueItems' = 2, totalReferences = 4,
               byType = [(''img'', Num 3), (''unknown'', Num 1)], unused = 1,
               altText = \<lparr>filled = 1, decorative = 2, notFilled = 1\<rparr>\<rparr>
   \<and> length (filter (\<lambda>r. truthy (url r)) (sample_records @ [blank_row])) = 3"
proof -
  have "fst (getMediaStats (serving (sample_records @ [blank_row])) Map.empty ''org'' ''repo'' None)
     = Stats \<lparr>uniqueItems' = 2, totalReferences = 4,
               byType = [(''img'', Num 3), (''unknown'', Num 1)], unused = 1,
               altText = \<lparr>filled = 1, decorative = 2, notFilled = 1\<rparr>\<rparr>"
    by code_simp
  moreover have "length (filter (\<lambda>r. truthy (url r)) (sample_records @ [blank_row])) = 3"
    by code_simp
  ultimately show ?thesis by (rule conjI)
qed

text \<open>
  C3. The catalogue has at most as many entries as there are raw records with a
  non-empty location identifier, and exactly as many if and only if the canonical keys
  of those records are pairwise distinct. Records with an empty or absent location
  identifier leave no trace: removing them from the input changes neither
  \<open>uniqueItems\<close> nor the usage index, every catalogue entry has a non-empty location
  identifier, and the usage list of a key holds exactly the details of the records with a
  non-empty identifier that reach the key.
\<close>

theorem catalogue_dedup:
  "length (uniqueItems (buildMediaStructures records))
     \<le> length (filter (\<lambda>r. truthy (url r)) records)
   \<and> (length (uniqueItems (buildMediaStructures records))
        = length (filter (\<lambda>r. truthy (url r)) records)
      \<longleftrightarrow> distinct (map (\<lambda>r. getGroupingKey (url r)) (filter (\<lambda>r. truthy (url r)) records)))
   \<and> uniqueItems (buildMediaStructures records)
        = uniqueItems (buildMediaStructures (filter (\<lambda>r. truthy (url r)) records))
   \<and> usageIndex (buildMediaStructures records)
        = usageIndex (buildMediaStructures (filter (\<lambda>r. truthy (url r)) records))
   \<and> (\<forall>e \<in> set (uniqueItems (buildMediaStructures records)). truthy (url e))
   \<and> (\<forall>k. map_of (usageIndex (buildMediaStructures records)) k
           = (if sharing k records = [] then None
              else Some (map usage_of (sharing k records))))"
proof (intro conjI)
  let ?keys = "map (\<lambda>r. getGroupingKey (url r)) (filter (\<lambda>r. truthy (url r)) records)"
  have len: "length (filter (\<lambda>r. truthy (url r)) records) = length ?keys" by simp
  show "length (uniqueItems (buildMediaStructures records))
     \<le> length (filter (\<lambda>r. truthy (url r)) records)"
    unfolding uniqueItems_length len by (rule card_length)
  show "length (uniqueItems (buildMediaStructures records))
        = length (filter (\<lambda>r. truthy (url r)) records) \<longleftrightarrow> distinct ?keys"
    unfolding uniqueItems_length len by (metis card_distinct distinct_card)
  show "uniqueItems (buildMediaStructures records)
        = uniqueItems (buildMediaStructures (filter (\<lambda>r. truthy (url r)) records))"
    by (simp only: buildMediaStructures_filter)
  show "usageIndex (buildMediaStructures records)
        = usageIndex (buildMediaStructures (filter (\<lambda>r. truthy (url r)) records))"
    by (simp only: buildMediaStructures_filter)
  show "\<forall>e \<in> set (uniqueItems (buildMediaStructures records)). truthy (url e)"
  proof
    fix e
    assume mem: "e \<in> set (uniqueItems (buildMediaStructures records))"
    let ?k = "getGroupingKey (url e)"
    have "url e = url (hd (sharing ?k records))"
      by (subst uniqueItems_member_key(2) [OF mem]) (simp only: seed_entry_fields)
    then show "truthy (url e)"
      using sharing_hd(1) [OF uniqueItems_member_key(1) [OF mem]] by simp
  qed
  show "\<forall>k. map_of (usageIndex (buildMediaStructures records)) k
           = (if sharing k records = [] then None
              else Some (map usage_of (sharing k records)))"
    by (simp only: usageIndex_lookup) simp
qed

theorem catalogue_dedup_witness:
  "length (uniqueItems (buildMediaStructures (sample_records @ [blank_row]))) = 2
   \<and> length (filter (\<lambda>r. truthy (url r)) (sample_records @ [blank_row])) = 3
   \<and> \<not> distinct (map (\<lambda>r. getGroupingKey (url r))
                   (filter (\<lambda>r. truthy (url r)) (sample_records @ [blank_row])))
   \<and> uniqueItems (buildMediaStructures (sample_records @ [blank_row]))
       = uniqueItems (buildMediaStructures sample_records)"
proof -
  have kept: "filter (\<lambda>r. truthy (url r)) (sample_records @ [blank_row]) = sample_records"
    by code_simp
  have two: "length (uniqueItems (buildMediaStructures sample_records)) = 2"
    by code_simp
  have three: "length sample_records = 3"
    by (simp add: sample_records_def)
  note dedup = catalogue_dedup [of "sample_records @ [blank_row]"]
  have same: "uniqueItems (buildMediaStructures (sample_records @ [blank_row]))
                = uniqueItems (buildMediaStructures sample_records)"
    using dedup [THEN conjunct2, THEN conjunct2, THEN conjunct1] unfolding kept .
  have len2: "length (uniqueItems (buildMediaStructures (sample_records @ [blank_row]))) = 2"
    unfolding same by (rule two)
  have len3: "length (filter (\<lambda>r. truthy (url r)) (sample_records @ [blank_row])) = 3"
    unfolding kept by (rule three)
  have "\<not> distinct (map (\<lambda>r. getGroupingKey (url r))
                   (filter (\<lambda>r. truthy (url r)) (sample_records @ [blank_row])))"
    using dedup [THEN conjunct2, THEN conjunct1] unfolding len2 len3 by simp
  with same len2 len3 show ?thesis
    by (intro conjI)
qed

text \<open>
  C4. A \<open>get_index\<close> call that finds a cache entry for the site returns
  \<open>cached: true\<close> and the entry's \<open>uniqueItems\<close>, and leaves the cache as it is; so a
  call that follows a successful one repeats its data with \<open>cached: true\<close>.
  \<open>refresh_cache\<close> drops the entry before it fetches: when the fetch delivers rows it
  returns the catalogue built from them with \<open>cached: false\<close> and stores the new entry,
  and the next \<open>get_index\<close>, whatever the remote does by then, returns the same data
  with \<open>cached: true\<close>; when the request is rejected the entry stays deleted.
\<close>

theorem cache_hit_and_refresh:
  "(mediaCache (cacheKey org repo path) = Some hit \<longrightarrow>
      getMediaIndex ev mediaCache org repo path =
        (Index \<lparr>data = uniqueItems hit, total = length (uniqueItems hit),
                 fetchedAt' = fetchedAt hit, cached = True\<rparr>, mediaCache))
   \<and> (getMediaIndex ev mediaCache org repo path = (Index ix, cache1) \<longrightarrow>
        getMediaIndex ev2 cache1 org repo path = (Index (ix\<lparr>cached := True\<rparr>), cache1))
   \<and> (daAdminRequest ev (buildMediaUrl ev org repo path) = Inr d \<and> mediaData_of d = Inr rows \<longrightarrow>
        (\<exists>cache2.
           cache2 = mediaCache(cacheKey org repo path \<mapsto>
                      \<lparr>uniqueItems = uniqueItems (buildMediaStructures rows),
                       usageIndex = usageIndex (buildMediaStructures rows),
                       rawData = rows, fetchedAt = now ev\<rparr>)
         \<and> refreshMediaCache ev mediaCache org repo path =
             (Index \<lparr>data = uniqueItems (buildMediaStructures rows),
                      total = length (uniqueItems (buildMediaStructures rows)),
                      fetchedAt' = now ev, cached = False\<rparr>, cache2)
         \<and> getMediaIndex ev2 cache2 org repo path =
             (Index \<lparr>data = uniqueItems (buildMediaStructures rows),
                      total = length (uniqueItems (buildMediaStructures rows)),
                      fetchedAt' = now ev, cached = True\<rparr>, cache2)))
   \<and> (daAdminRequest ev (buildMediaUrl ev org repo path) = Inl err \<longrightarrow>
        refreshMediaCache ev mediaCache org repo path =
          (Failure (buildErrorResponse ev org repo path err),
           mediaCache(cacheKey org repo path := None)))"
proof (intro conjI impI)
  show "getMediaIndex ev mediaCache org repo path =
        (Index \<lparr>data = uniqueItems hit, total = length (uniqueItems hit),
                 fetchedAt' = fetchedAt hit, cached = True\<rparr>, mediaCache)"
    if "mediaCache (cacheKey org repo path) = Some hit"
    using that by (rule getMediaIndex_hit)
  show "getMediaIndex ev2 cache1 org repo path = (Index (ix\<lparr>cached := True\<rparr>), cache1)"
    if "getMediaIndex ev mediaCache org repo path = (Index ix, cache1)"
    using that by (rule getMediaIndex_again)
  show "\<exists>cache2.
           cache2 = mediaCache(cacheKey org repo path \<mapsto>
                      \<lparr>uniqueItems = uniqueItems (buildMediaStructures rows),
                       usageIndex = usageIndex (buildMediaStructures rows),
                       rawData = rows, fetchedAt = now ev\<rparr>)
         \<and> refreshMediaCache ev mediaCache org repo path =
             (Index \<lparr>data = uniqueItems (buildMediaStructures rows),
                      total = length (uniqueItems (buildMediaStructures rows)),
                      fetchedAt' = now ev, cached = False\<rparr>, cache2)
         \<and> getMediaIndex ev2 cache2 org repo path =
             (Index \<lparr>data = uniqueItems (buildMediaStructures rows),
                      total = length (uniqueItems (buildMediaStructures rows)),
                      fetchedAt' = now ev, cached = True\<rparr>, cache2)"
    if "daAdminRequest ev (buildMediaUrl ev org repo path) = Inr d \<and> mediaData_of d = Inr rows"
  proof -
    let ?c = "mediaCache(cacheKey org repo path := None)"
    have none: "?c (cacheKey org repo path) = None" by simp
    from that have d: "daAdminRequest ev (buildMediaUrl ev org repo path) = Inr d"
      and rows: "mediaData_of d = Inr rows" by simp_all
    let ?c2 = "?c(cacheKey org repo path \<mapsto>
        \<lparr>uniqueItems = uniqueItems (buildMediaStructures rows),
         usageIndex = usageIndex (buildMediaStructures rows),
         rawData = rawData (buildMediaStructures rows),
         fetchedAt = now ev\<rparr>)"
    have 1: "refreshMediaCache ev mediaCache org repo path =
             (Index \<lparr>data = uniqueItems (buildMediaStructures rows),
                      total = length (uniqueItems (buildMediaStructures rows)),
                      fetchedAt' = now ev, cached = False\<rparr>, ?c2)"
      unfolding refreshMediaCache_def using none d rows by (rule getMediaIndex_built)
    have 2: "getMediaIndex ev2 ?c2 org repo path =
             (Index \<lparr>data = uniqueItems (buildMediaStructures rows),
                      total = length (uniqueItems (buildMediaStructures rows)),
                      fetchedAt' = now ev, cached = True\<rparr>, ?c2)"
      by (simp add: getMediaIndex_hit)
    have 3: "?c2 = mediaCache(cacheKey org repo path \<mapsto>
                      \<lparr>uniqueItems = uniqueItems (buildMediaStructures rows),
                       usageIndex = usageIndex (buildMediaStructures rows),
                       rawData = rows, fetchedAt = now ev\<rparr>)"
      by (simp add: rawData_build)
    show ?thesis
      by (intro exI [of _ ?c2] conjI 1 2 3)
  qed
  show "refreshMediaCache ev mediaCache org repo path =
          (Failure (buildErrorResponse ev org repo path err),
           mediaCache(cacheKey org repo path := None))"
    if "daAdminRequest ev (buildMediaUrl ev org repo path) = Inl err"
    unfolding refreshMediaCache_def
    by (rule getMediaIndex_rejected) (simp_all add: that)
qed

theorem cache_hit_and_refresh_witness:
  "stale_cache (cacheKey ''org'' ''repo'' None) = Some stale_entry
   \<and> getMediaIndex (serving sample_records) stale_cache ''org'' ''repo'' None =
       (Index \<lparr>data = [], total = 0, fetchedAt' = 5, cached = True\<rparr>, stale_cache)
   \<and> (\<exists>cache2.
         refreshMediaCache (serving sample_records) stale_cache ''org'' ''repo'' None =
           (Index \<lparr>data = uniqueItems (buildMediaStructures sample_records),
                    total = 2, fetchedAt' = 1700, cached = False\<rparr>, cache2)
       \<and> getMediaIndex missing cache2 ''org'' ''repo'' None =
           (Index \<lparr>data = uniqueItems (buildMediaStructures sample_records),
                    total = 2, fetchedAt' = 1700, cached = True\<rparr>, cache2))
   \<and> refreshMediaCache missing stale_cache ''org'' ''repo'' None =
       (Failure (buildErrorResponse missing ''org'' ''repo'' None
                   \<lparr>error_name = ''Error'', message = ''Not Found''\<rparr>),
        stale_cache(cacheKey ''org'' ''repo'' None := None))"
proof -
  have hit: "stale_cache (cacheKey ''org'' ''repo'' None) = Some stale_entry"
    by (simp add: stale_cache_def)
  have served: "daAdminRequest (serving sample_records)
                  (buildMediaUrl (serving sample_records) ''org'' ''repo'' None)
                = Inr (Sheet sample_records)
              \<and> mediaData_of (Sheet sample_records) = Inr sample_records"
    by (simp add: serving_def mediaData_of_def)
  have rejected: "daAdminRequest missing (buildMediaUrl missing ''org'' ''repo'' None)
                = Inl \<lparr>error_name = ''Error'', message = ''Not Found''\<rparr>"
    by (simp add: missing_def)
  have two: "length (uniqueItems (buildMediaStructures sample_records)) = 2"
    by code_simp
  have now: "now (serving sample_records) = 1700"
    by (simp add: serving_def)
  note online = cache_hit_and_refresh
    [of stale_cache "''org''" "''repo''" None stale_entry "serving sample_records" _ _ missing
        "Sheet sample_records" sample_records]
  note offline = cache_hit_and_refresh
    [of stale_cache "''org''" "''repo''" None _ missing _ _ _ _ _
        "\<lparr>error_name = ''Error'', message = ''Not Found''\<rparr>"]
  have 1: "getMediaIndex (serving sample_records) stale_cache ''org'' ''repo'' None =
       (Index \<lparr>data = [], total = 0, fetchedAt' = 5, cached = True\<rparr>, stale_cache)"
    using online [THEN conjunct1] hit by (simp add: stale_entry_def)
  have 2: "\<exists>cache2.
         refreshMediaCache (serving sample_records) stale_cache ''org'' ''repo'' None =
           (Index \<lparr>data = uniqueItems (buildMediaStructures sample_records),
                    total = 2, fetchedAt' = 1700, cached = False\<rparr>, cache2)
       \<and> getMediaIndex missing cache2 ''org'' ''repo'' None =
           (Index \<lparr>data = uniqueItems (buildMediaStructures sample_records),
                    total = 2, fetchedAt' = 1700, cached = True\<rparr>, cache2)"
    using online [THEN conjunct2, THEN conjunct2, THEN conjunct1] served
    unfolding two now by blast
  have 3: "refreshMediaCache missing stale_cache ''org'' ''repo'' None =
       (Failure (buildErrorResponse missing ''org'' ''repo'' None
                   \<lparr>error_name = ''Error'', message = ''Not Found''\<rparr>),
        stale_cache(cacheKey ''org'' ''repo'' None := None))"
    using offline [THEN conjunct2, THEN conjunct2, THEN conjunct2] rejected by blast
  show ?thesis by (intro conjI hit 1 2 3)
qed

text \<open>
  C5. The key normalizer maps an empty or absent location identifier to the empty
  string; any other identifier is cut at its first question mark and the part before it
  is lower-cased. Hence an identifier without a question mark and the same identifier
  followed by \<open>?x=1\<close> have the same canonical key.
\<close>

theorem getGroupingKey_normalizes:
  "getGroupingKey None = []
   \<and> getGroupingKey (Some []) = []
   \<and> (u \<noteq> [] \<longrightarrow>
        getGroupingKey (Some u) = toLowerCase (takeWhile (\<lambda>c. c \<noteq> CHR ''?'') u))
   \<and> (CHR ''?'' \<notin> set u \<longrightarrow>
        getGroupingKey (Some (u @ ''?x=1'')) = getGroupingKey (Some u))"
proof (intro conjI impI)
  show "getGroupingKey None = []" by (simp add: getGroupingKey_def)
  show "getGroupingKey (Some []) = []" by (simp add: getGroupingKey_def)
  show "getGroupingKey (Some u) = toLowerCase (takeWhile (\<lambda>c. c \<noteq> CHR ''?'') u)"
    if "u \<noteq> []"
    using that by (simp add: getGroupingKey_def split_first_def)
  show "getGroupingKey (Some (u @ ''?x=1'')) = getGroupingKey (Some u)"
    if "CHR ''?'' \<notin> set u"
  proof -
    from that have "split_first (u @ ''?x=1'') = u" and "split_first u = u"
      by (auto simp add: split_first_def takeWhile_append)
    then show ?thesis
      by (cases u) (simp_all add: getGroupingKey_def split_first_def toLowerCase_def)
  qed
qed

theorem getGroupingKey_normalizes_witness:
  "''Img/A.PNG'' \<noteq> [] \<and> CHR ''?'' \<notin> set ''Img/A.PNG''
   \<and> getGroupingKey (Some ''Img/A.PNG'') = ''img/a.png''
   \<and> getGroupingKey (Some (''Img/A.PNG'' @ ''?x=1'')) = ''img/a.png''"
proof -
  have ne: "''Img/A.PNG'' \<noteq> []" and nq: "CHR ''?'' \<notin> set ''Img/A.PNG''"
    by simp_all
  have low: "toLowerCase (takeWhile (\<lambda>c. c \<noteq> CHR ''?'') ''Img/A.PNG'') = ''img/a.png''"
    by code_simp
  from getGroupingKey_normalizes [of "''Img/A.PNG''"] ne nq low show ?thesis
    by simp
qed

text \<open>
  C6. When the site has no cache entry and the request for the remote document is
  rejected, \<open>get_index\<close> returns a value, the payload of \<open>buildErrorResponse\<close>: the
  \<open>error\<close> text, the \<open>initUrl\<close> of the site and the \<open>debug\<close> record with the message of
  the failure. The cache comes back unchanged, so it still has no entry for the site.
\<close>

theorem fetch_failure_payload:
  assumes "mediaCache (cacheKey org repo path) = None"
    and "daAdminRequest ev (buildMediaUrl ev org repo path) = Inl err"
  shows "\<exists>payload.
           getMediaIndex ev mediaCache org repo path = (Failure payload, mediaCache)
         \<and> error payload = ''Media index not found''
         \<and> initUrl payload =
             ''https://main--da-live--adobe.aem.live/apps/media-library?nx=media#''
               @ org @ ''/'' @ repo
               @ (if truthy path then ''/'' @ strip_leading_slash (str_value path) else [])
         \<and> debug payload =
             \<lparr>debug_org = org, debug_repo = repo, debug_path = path,
              debug_url = buildMediaUrl ev org repo path,
              debug_error = (if message err \<noteq> [] then message err else error_toString err)\<rparr>
         \<and> snd (getMediaIndex ev mediaCache org repo path) (cacheKey org repo path) = None"
proof -
  have "getMediaIndex ev mediaCache org repo path =
          (Failure (buildErrorResponse ev org repo path err), mediaCache)"
    using assms by (rule getMediaIndex_rejected)
  moreover have "initUrl (buildErrorResponse ev org repo path err) =
             ''https://main--da-live--adobe.aem.live/apps/media-library?nx=media#''
               @ org @ ''/'' @ repo
               @ (if truthy path then ''/'' @ strip_leading_slash (str_value path) else [])"
    by (simp add: buildErrorResponse_def truthy_def str_value_def split: option.splits)
  ultimately show ?thesis
    using assms(1) by (simp add: buildErrorResponse_def)
qed

theorem fetch_failure_payload_witness:
  "\<exists>payload.
     getMediaIndex missing Map.empty ''org'' ''repo'' (Some ''/site'') = (Failure payload, Map.empty)
   \<and> error payload = ''Media index not found''
   \<and> initUrl payload =
        ''https://main--da-live--adobe.aem.live/apps/media-library?nx=media#org/repo/site''
   \<and> debug_error (debug payload) = ''Not Found''"
proof -
  have miss: "(Map.empty :: media_cache) (cacheKey ''org'' ''repo'' (Some ''/site'')) = None"
    by simp
  have rejected: "daAdminRequest missing (buildMediaUrl missing ''org'' ''repo'' (Some ''/site''))
                = Inl \<lparr>error_name = ''Error'', message = ''Not Found''\<rparr>"
    by (simp add: missing_def)
  have url: "''https://main--da-live--adobe.aem.live/apps/media-library?nx=media#''
               @ ''org'' @ ''/'' @ ''repo''
               @ (if truthy (Some ''/site'') then ''/'' @ strip_leading_slash (str_value (Some ''/site'')) else [])
             = ''https://main--da-live--adobe.aem.live/apps/media-library?nx=media#org/repo/site''"
    by (simp add: truthy_def strip_leading_slash_def str_value_def)
  from fetch_failure_payload [OF miss rejected] show ?thesis
    unfolding url by auto
qed

text \<open>
  C7. Let the index of the site be available (cached, or built by this call) and let
  \<open>hit\<close> be its cache entry. If neither \<open>mediaUrl\<close> nor \<open>mediaName\<close> is supplied, or the
  canonical key of \<open>mediaUrl\<close> is not a key of the usage index, or only \<open>mediaName\<close> is
  supplied and no key of the usage index contains it in lower case, then \<open>find_usage\<close>
  returns \<open>{mediaItem: null, usageCount: 0, documents: [], allUsages: []}\<close>.
\<close>

theorem find_usage_not_found:
  assumes "getMediaIndex ev mediaCache org repo path = (Index ix, cache1)"
    and "cache1 (cacheKey org repo path) = Some hit"
    and "(\<not> truthy mediaUrl \<and> \<not> truthy mediaName)
         \<or> (truthy mediaUrl \<and> getGroupingKey mediaUrl \<notin> fst ` set (usageIndex hit))
         \<or> (\<not> truthy mediaUrl \<and> truthy mediaName
             \<and> (\<forall>key \<in> fst ` set (usageIndex hit).
                    \<not> str_includes key (toLowerCase (str_value mediaName))))"
  shows "findMediaUsage ev mediaCache org repo path mediaUrl mediaName =
           (Usage \<lparr>mediaItem = None, usageCount' = 0, documents = [], allUsages = []\<rparr>, cache1)"
  using findMediaUsage_hit [OF assms(1,2)] usage_lookup_unresolved [OF assms(3)]
  by (simp add: not_found_def)

theorem find_usage_not_found_witness:
  "sample_cache (cacheKey ''org'' ''repo'' None) = Some sample_hit
   \<and> ''a.png'' \<in> fst ` set (usageIndex sample_hit)
   \<and> \<not> truthy None \<and> truthy (Some ''Zebra'')
   \<and> findMediaUsage missing sample_cache ''org'' ''repo'' None None (Some ''Zebra'') =
       (Usage \<lparr>mediaItem = None, usageCount' = 0, documents = [], allUsages = []\<rparr>,
        sample_cache)"
proof -
  have hit: "sample_cache (cacheKey ''org'' ''repo'' None) = Some sample_hit"
    by (simp add: sample_cache_def)
  have idx: "getMediaIndex missing sample_cache ''org'' ''repo'' None =
               (Index \<lparr>data = uniqueItems sample_hit, total = length (uniqueItems sample_hit),
                        fetchedAt' = fetchedAt sample_hit, cached = True\<rparr>, sample_cache)"
    using hit by (rule getMediaIndex_hit)
  have known: "''a.png'' \<in> fst ` set (usageIndex sample_hit)"
    by code_simp
  have given: "\<not> truthy None" "truthy (Some ''Zebra'')"
    by (simp_all add: truthy_def)
  have nomatch: "\<forall>key \<in> fst ` set (usageIndex sample_hit).
                   \<not> str_includes key (toLowerCase (str_value (Some ''Zebra'')))"
    by code_simp
  from given nomatch
  have unresolved: "(\<not> truthy None \<and> \<not> truthy (Some ''Zebra''))
         \<or> (truthy None \<and> getGroupingKey None \<notin> fst ` set (usageIndex sample_hit))
         \<or> (\<not> truthy None \<and> truthy (Some ''Zebra'')
             \<and> (\<forall>key \<in> fst ` set (usageIndex sample_hit).
                    \<not> str_includes key (toLowerCase (str_value (Some ''Zebra'')))))"
    by blast
  from find_usage_not_found [OF idx hit unresolved] hit known given show ?thesis
    by (intro conjI)
qed

text \<open>
  C8. Called for a site without a cache entry, \<open>find_usage\<close> fetches first: a rejected
  request gives the payload that \<open>get_index\<close> returns for it and leaves the cache alone,
  and delivered rows are built into a new cache entry from which the answer is computed.
\<close>

theorem find_usage_fetches_first:
  "(mediaCache (cacheKey org repo path) = None
        \<and> daAdminRequest ev (buildMediaUrl ev org repo path) = Inl err \<longrightarrow>
        findMediaUsage ev mediaCache org repo path mediaUrl mediaName =
          (Failure (buildErrorResponse ev org repo path err), mediaCache))
   \<and> (mediaCache (cacheKey org repo path) = None
        \<and> daAdminRequest ev (buildMediaUrl ev org repo path) = Inr d
        \<and> mediaData_of d = Inr rows \<longrightarrow>
        (\<exists>hit. hit = \<lparr>uniqueItems = uniqueItems (buildMediaStructures rows),
                       usageIndex = usageIndex (buildMediaStructures rows),
                       rawData = rows, fetchedAt = now ev\<rparr>
            \<and> findMediaUsage ev mediaCache org repo path mediaUrl mediaName =
                (Usage (usage_lookup hit mediaUrl mediaName),
                 mediaCache(cacheKey org repo path \<mapsto> hit))))"
proof (intro conjI impI)
  assume "mediaCache (cacheKey org repo path) = None
        \<and> daAdminRequest ev (buildMediaUrl ev org repo path) = Inl err"
  then have "getMediaIndex ev mediaCache org repo path =
     (Failure (buildErrorResponse ev org repo path err), mediaCache)"
    by (simp add: getMediaIndex_rejected)
  then show "findMediaUsage ev mediaCache org repo path mediaUrl mediaName =
          (Failure (buildErrorResponse ev org repo path err), mediaCache)"
    by (simp add: findMediaUsage_def)
next
  assume a: "mediaCache (cacheKey org repo path) = None
        \<and> daAdminRequest ev (buildMediaUrl ev org repo path) = Inr d
        \<and> mediaData_of d = Inr rows"
  then have "getMediaIndex ev mediaCache org repo path =
     (Index \<lparr>data = uniqueItems (buildMediaStructures rows),
              total = length (uniqueItems (buildMediaStructures rows)),
              fetchedAt' = now ev, cached = False\<rparr>,
      mediaCache(cacheKey org repo path \<mapsto>
        \<lparr>uniqueItems = uniqueItems (buildMediaStructures rows),
         usageIndex = usageIndex (buildMediaStructures rows),
         rawData = rawData (buildMediaStructures rows),
         fetchedAt = now ev\<rparr>))"
    by (simp add: getMediaIndex_built)
  then show "\<exists>hit. hit = \<lparr>uniqueItems = uniqueItems (buildMediaStructures rows),
                       usageIndex = usageIndex (buildMediaStructures rows),
                       rawData = rows, fetchedAt = now ev\<rparr>
            \<and> findMediaUsage ev mediaCache org repo path mediaUrl mediaName =
                (Usage (usage_lookup hit mediaUrl mediaName),
                 mediaCache(cacheKey org repo path \<mapsto> hit))"
    by (simp add: findMediaUsage_def rawData_build)
qed

theorem find_usage_fetches_first_witness:
  "(Map.empty :: media_cache) (cacheKey ''org'' ''repo'' None) = None
   \<and> findMediaUsage missing Map.empty ''org'' ''repo'' None (Some ''a.png'') None =
       (Failure (buildErrorResponse missing ''org'' ''repo'' None
                   \<lparr>error_name = ''Error'', message = ''Not Found''\<rparr>), Map.empty)
   \<and> findMediaUsage (serving sample_records) Map.empty ''org'' ''repo'' None (Some ''a.png'') None =
       (Usage (usage_lookup sample_hit (Some ''a.png'') None),
        [cacheKey ''org'' ''repo'' None \<mapsto> sample_hit])"
proof -
  have miss: "(Map.empty :: media_cache) (cacheKey ''org'' ''repo'' None) = None"
    by simp
  have rejected: "daAdminRequest missing (buildMediaUrl missing ''org'' ''repo'' None)
                = Inl \<lparr>error_name = ''Error'', message = ''Not Found''\<rparr>"
    by (simp add: missing_def)
  have served: "daAdminRequest (serving sample_records)
                  (buildMediaUrl (serving sample_records) ''org'' ''repo'' None)
                = Inr (Sheet sample_records)"
    "mediaData_of (Sheet sample_records) = Inr sample_records"
    by (simp_all add: serving_def mediaData_of_def)
  have now: "now (serving sample_records) = 1700"
    by (simp add: serving_def)
  note offline = find_usage_fetches_first
    [where ev = missing and mediaCache = Map.empty and org = "''org''" and repo = "''repo''"
       and path = None and mediaUrl = "Some ''a.png''" and mediaName = None
       and err = "\<lparr>error_name = ''Error'', message = ''Not Found''\<rparr>"]
  note online = find_usage_fetches_first
    [where ev = "serving sample_records" and mediaCache = Map.empty and org = "''org''"
       and repo = "''repo''" and path = None and mediaUrl = "Some ''a.png''"
       and mediaName = None and d = "Sheet sample_records" and rows = sample_records]
  have 1: "findMediaUsage missing Map.empty ''org'' ''repo'' None (Some ''a.png'') None =
       (Failure (buildErrorResponse missing ''org'' ''repo'' None
                   \<lparr>error_name = ''Error'', message = ''Not Found''\<rparr>), Map.empty)"
    using offline [THEN conjunct1] miss rejected by blast
  have 2: "findMediaUsage (serving sample_records) Map.empty ''org'' ''repo'' None (Some ''a.png'') None =
       (Usage (usage_lookup sample_hit (Some ''a.png'') None),
        [cacheKey ''org'' ''repo'' None \<mapsto> sample_hit])"
    using online [THEN conjunct2] miss served
    unfolding now sample_hit_def by blast
  show ?thesis by (intro conjI miss 1 2)
qed

text \<open>
  With an empty cache the result is the fetch failure when the remote has no document,
  and a usage result when it has one; in neither case \<open>'Media data not loaded'\<close>.
\<close>

theorem find_usage_not_loaded_counterexample:
  "fst (findMediaUsage missing Map.empty ''org'' ''repo'' None (Some ''a.png'') None)
     = Failure \<lparr>error = ''Media index not found'',
                 initUrl = ''https://main--da-live--adobe.aem.live/apps/media-library?nx=media#org/repo'',
                 debug = \<lparr>debug_org = ''org'', debug_repo = ''repo'', debug_path = None,
                           debug_url = ''https://admin.da.live/source/org/repo/.da/mediaindex/media.json'',
                           debug_error = ''Not Found''\<rparr>\<rparr>
   \<and> fst (findMediaUsage missing Map.empty ''org'' ''repo'' None (Some ''a.png'') None)
       \<noteq> NotLoaded ''Media data not loaded''
   \<and> fst (findMediaUsage (serving sample_records) Map.empty ''org'' ''repo'' None (Some ''a.png'') None)
       \<noteq> NotLoaded ''Media data not loaded''"
proof -
  have "fst (findMediaUsage missing Map.empty ''org'' ''repo'' None (Some ''a.png'') None)
     = Failure \<lparr>error = ''Media index not found'',
                 initUrl = ''https://main--da-live--adobe.aem.live/apps/media-library?nx=media#org/repo'',
                 debug = \<lparr>debug_org = ''org'', debug_repo = ''repo'', debug_path = None,
                           debug_url = ''https://admin.da.live/source/org/repo/.da/mediaindex/media.json'',
                           debug_error = ''Not Found''\<rparr>\<rparr>"
    by code_simp
  moreover have "fst (findMediaUsage (serving sample_records) Map.empty ''org'' ''repo'' None (Some ''a.png'') None)
       \<noteq> NotLoaded ''Media data not loaded''"
    by (simp add: findMediaUsage_def getMediaIndex_def serving_def mediaData_of_def Let_def)
  ultimately show ?thesis by simp
qed

text \<open>
  C9. For every canonical key of a built index there is exactly one catalogue entry.
  Without its \<open>usageCount\<close> it is the first raw record, in document order, that carries
  the key; its \<open>usageCount\<close> is the number of records carrying the key and is at least 1.
  One more record at the end of the input leaves the entry as it is, except that a
  record carrying the key adds one to \<open>usageCount\<close>.
\<close>

theorem first_seen_snapshot:
  assumes "k \<in> fst ` set (usageIndex (buildMediaStructures records))"
  shows "\<exists>e r0.
           filter (\<lambda>item. getGroupingKey (url item) = k) (uniqueItems (buildMediaStructures records)) = [e]
         \<and> find (\<lambda>r. truthy (url r) \<and> getGroupingKey (url r) = k) records = Some r0
         \<and> raw_record.truncate e = r0
         \<and> usageCount e = length (sharing k records)
         \<and> 1 \<le> usageCount e
         \<and> (\<forall>r. filter (\<lambda>item. getGroupingKey (url item) = k)
                    (uniqueItems (buildMediaStructures (records @ [r])))
                  = (if truthy (url r) \<and> getGroupingKey (url r) = k
                     then [e\<lparr>usageCount := usageCount e + 1\<rparr>] else [e]))"
proof -
  let ?s = "sharing k records"
  let ?e = "(seed_entry (hd ?s))\<lparr>usageCount := length ?s\<rparr>"
  from assms have ne: "?s \<noteq> []" by (simp add: usageIndex_keys)
  have 1: "filter (\<lambda>item. getGroupingKey (url item) = k) (uniqueItems (buildMediaStructures records)) = [?e]"
    using ne by (simp add: uniqueItems_for_key)
  have 2: "find (\<lambda>r. truthy (url r) \<and> getGroupingKey (url r) = k) records = Some (hd ?s)"
    using ne by (simp add: sharing_find)
  have 3: "raw_record.truncate ?e = hd ?s" by (rule seed_entry_fields)
  have 4: "usageCount ?e = length ?s" by (rule seed_entry_fields)
  have 5: "1 \<le> usageCount ?e"
    using ne unfolding 4 by (cases ?s) simp_all
  have 6: "filter (\<lambda>item. getGroupingKey (url item) = k)
                    (uniqueItems (buildMediaStructures (records @ [r])))
                  = (if truthy (url r) \<and> getGroupingKey (url r) = k
                     then [?e\<lparr>usageCount := usageCount ?e + 1\<rparr>] else [?e])" for r
    using ne by (simp add: uniqueItems_for_key sharing_snoc seed_entry_def)
  from 1 2 3 4 5 6 show ?thesis by blast
qed

theorem first_seen_snapshot_witness:
  "''a.png'' \<in> fst ` set (usageIndex (buildMediaStructures sample_records))
   \<and> (\<exists>e. filter (\<lambda>item. getGroupingKey (url item) = ''a.png'')
               (uniqueItems (buildMediaStructures sample_records)) = [e]
          \<and> raw_record.truncate e = hd sample_records
          \<and> usageCount e = 2)"
proof -
  have key: "''a.png'' \<in> fst ` set (usageIndex (buildMediaStructures sample_records))"
    by code_simp
  have first: "find (\<lambda>r. truthy (url r) \<and> getGroupingKey (url r) = ''a.png'') sample_records
                 = Some (hd sample_records)"
    by code_simp
  have two: "length (sharing ''a.png'' sample_records) = 2"
    by code_simp
  from first_seen_snapshot [OF key] first two key show ?thesis
    by auto
qed

text \<open>
  C10. In every usage result of \<open>find_usage\<close>, \<open>documents\<close> lists the non-empty \<open>doc\<close>
  values of \<open>allUsages\<close>, each once, in the order of their first occurrence; a usage
  whose \<open>doc\<close> is empty or absent adds nothing to \<open>documents\<close> but is in \<open>allUsages\<close> and
  is counted by \<open>usageCount\<close>. When a canonical key is resolved and the usage index has
  it, \<open>allUsages\<close> is the usage list stored under that key.
\<close>

theorem find_usage_documents:
  assumes "findMediaUsage ev mediaCache org repo path mediaUrl mediaName = (Usage u, cache1)"
  shows "\<exists>hit. cache1 (cacheKey org repo path) = Some hit
           \<and> (\<forall>k usages. resolveGroupingKey (usageIndex hit) mediaUrl mediaName = Some k
                  \<and> k \<noteq> [] \<and> map_of (usageIndex hit) k = Some usages
                \<longrightarrow> allUsages u = usages)
           \<and> documents u = first_occurrences (nonempty_docs (allUsages u))
           \<and> distinct (documents u)
           \<and> set (documents u) = {d. d \<noteq> [] \<and> Some d \<in> doc ` set (allUsages u)}
           \<and> usageCount' u = length (allUsages u)"
proof -
  have "\<exists>ix c hit. getMediaIndex ev mediaCache org repo path = (Index ix, c)
            \<and> c (cacheKey org repo path) = Some hit"
  proof (cases rule: getMediaIndex_cases [of mediaCache org repo path ev])
    case (hit h)
    then show ?thesis by simp
  next
    case (failed err)
    with assms show ?thesis by (simp add: findMediaUsage_def)
  next
    case (built d rows)
    then show ?thesis by simp
  qed
  then obtain ix c hit where idx: "getMediaIndex ev mediaCache org repo path = (Index ix, c)"
    and hit: "c (cacheKey org repo path) = Some hit"
    by blast
  from findMediaUsage_hit [OF idx hit] assms
  have u: "u = usage_lookup hit mediaUrl mediaName" and c: "cache1 = c" by simp_all
  have docs: "documents u = first_occurrences (nonempty_docs (allUsages u))"
    and cnt: "usageCount' u = length (allUsages u)"
    unfolding u by (rule usage_lookup_documents)+
  have res: "\<forall>k usages. resolveGroupingKey (usageIndex hit) mediaUrl mediaName = Some k
                  \<and> k \<noteq> [] \<and> map_of (usageIndex hit) k = Some usages
                \<longrightarrow> allUsages u = usages"
    unfolding u by (blast intro: usage_lookup_resolved)
  have dist: "distinct (documents u)"
    unfolding docs by (rule distinct_first_occurrences)
  have sets: "set (documents u) = {d. d \<noteq> [] \<and> Some d \<in> doc ` set (allUsages u)}"
    unfolding docs by (simp only: set_first_occurrences set_nonempty_docs)
  from hit c res docs dist sets cnt show ?thesis by blast
qed

theorem find_usage_documents_witness:
  "findMediaUsage missing repeated_cache ''org'' ''repo'' None (Some ''/media/logo.png?w=200'') None
     = (Usage (usage_lookup repeated_hit (Some ''/media/logo.png?w=200'') None), repeated_cache)
   \<and> map doc (allUsages (usage_lookup repeated_hit (Some ''/media/logo.png?w=200'') None))
       = [Some ''p1'', Some [], Some ''p2'', Some ''p1'']
   \<and> documents (usage_lookup repeated_hit (Some ''/media/logo.png?w=200'') None) = [''p1'', ''p2'']
   \<and> usageCount' (usage_lookup repeated_hit (Some ''/media/logo.png?w=200'') None) = 4"
proof -
  let ?u = "usage_lookup repeated_hit (Some ''/media/logo.png?w=200'') None"
  have hit: "repeated_cache (cacheKey ''org'' ''repo'' None) = Some repeated_hit"
    by (simp add: repeated_cache_def)
  have idx: "getMediaIndex missing repeated_cache ''org'' ''repo'' None =
               (Index \<lparr>data = uniqueItems repeated_hit, total = length (uniqueItems repeated_hit),
                        fetchedAt' = fetchedAt repeated_hit, cached = True\<rparr>, repeated_cache)"
    using hit by (rule getMediaIndex_hit)
  have run: "findMediaUsage missing repeated_cache ''org'' ''repo'' None
               (Some ''/media/logo.png?w=200'') None = (Usage ?u, repeated_cache)"
    using idx hit by (rule findMediaUsage_hit)
  have all: "allUsages ?u = map usage_of repeated_rows"
    by code_simp
  have docs: "map doc (allUsages ?u) = [Some ''p1'', Some [], Some ''p2'', Some ''p1'']"
    unfolding all by code_simp
  have firsts: "first_occurrences (nonempty_docs (map usage_of repeated_rows)) = [''p1'', ''p2'']"
    by code_simp
  have four: "length (map usage_of repeated_rows) = 4"
    by (simp add: repeated_rows_def)
  from find_usage_documents [OF run] have
    "documents ?u = first_occurrences (nonempty_docs (allUsages ?u))"
    "usageCount' ?u = length (allUsages ?u)"
    by blast+
  then have "documents ?u = [''p1'', ''p2'']" and "usageCount' ?u = 4"
    unfolding all firsts four by simp_all
  with run docs show ?thesis by (intro conjI)
qed

end
